(* ===== verification/Prelude.thy ===== *)
theory Prelude
  imports Complex_Main "HOL-Library.Word" "HOL-Library.Signed_Division"
begin

text \<open>
  What the components share: the ways in which a C++ statement can fail to have a value
  (\<open>fault\<close>), the result type that carries such a failure, checked 64-bit signed
  arithmetic as C performs it, and the collections of facts the component proofs use.
\<close>

subsection \<open>Collections\<close>

named_theorems res_simps \<open>evaluation of results\<close>
named_theorems c_arith \<open>C integer arithmetic\<close>

subsection \<open>Faults and results\<close>

text \<open>
  A fault is an outcome after which the source says nothing about the rest of the run:
  undefined behaviour of the language (signed overflow, division by zero, a conversion of a
  floating value that does not fit, a null pointer, an access outside an object), a failed
  \<open>assert\<close>, an exception that leaves the function, or a call of \<open>exit\<close>.
\<close>

datatype fault =
    Signed_Overflow
  | Division_By_Zero
  | Bad_Float_Cast
  | Null_Deref
  | Out_Of_Bounds
  | Assertion_Failed
  | Uncaught string
  | Exit_Call int

type_synonym 'a res = "fault + 'a"

fun bind_res :: "'a res \<Rightarrow> ('a \<Rightarrow> 'b res) \<Rightarrow> 'b res" where
  "bind_res (Inl e) f = Inl e"
| "bind_res (Inr x) f = f x"

lemma bind_res_Inr_iff [res_simps]:
  "bind_res m f = Inr y \<longleftrightarrow> (\<exists>x. m = Inr x \<and> f x = Inr y)"
  by (cases m) auto

lemma bind_res_Inl_iff [res_simps]:
  "bind_res m f = Inl e \<longleftrightarrow> m = Inl e \<or> (\<exists>x. m = Inr x \<and> f x = Inl e)"
  by (cases m) auto

definition guard_res :: "bool \<Rightarrow> fault \<Rightarrow> unit res" where
  "guard_res b e = (if b then Inr () else Inl e)"

lemma guard_res_iff [res_simps]:
  "guard_res b e = Inr u \<longleftrightarrow> b"
  "guard_res b e = Inl e' \<longleftrightarrow> \<not> b \<and> e' = e"
  by (auto simp: guard_res_def)

lemma guard_res_True [simp]: "guard_res True e = Inr ()"
  by (simp add: guard_res_def)

lemma guard_res_False [simp]: "guard_res False e = Inl e"
  by (simp add: guard_res_def)

text \<open>An \<open>assert\<close>: compiled out when \<open>NDEBUG\<close> (\<open>nd\<close>) is defined.\<close>

definition assert_res :: "bool \<Rightarrow> bool \<Rightarrow> unit res" where
  "assert_res nd b = guard_res (nd \<or> b) Assertion_Failed"

subsection \<open>Signed 64-bit arithmetic\<close>

text \<open>
  The types \<open>long\<close>, \<open>time_t\<close> and \<open>int64_t\<close> of the target are 64 bits wide. Their
  values are integers; an operation whose exact result does not fit is undefined behaviour,
  so the model returns a fault where the code would overflow.
\<close>

definition in_s64 :: "int \<Rightarrow> bool" where
  "in_s64 k \<longleftrightarrow> - (2 ^ 63) \<le> k \<and> k < 2 ^ 63"

definition chk64 :: "int \<Rightarrow> int res" where
  "chk64 k = (if in_s64 k then Inr k else Inl Signed_Overflow)"

definition add64 :: "int \<Rightarrow> int \<Rightarrow> int res" where "add64 a b = chk64 (a + b)"
definition sub64 :: "int \<Rightarrow> int \<Rightarrow> int res" where "sub64 a b = chk64 (a - b)"

text \<open>C's division truncates towards zero; the remainder has the sign of the dividend.\<close>

definition div64 :: "int \<Rightarrow> int \<Rightarrow> int res" where
  "div64 a b = (if b = 0 then Inl Division_By_Zero else chk64 (a sdiv b))"

definition mod64 :: "int \<Rightarrow> int \<Rightarrow> int res" where
  "mod64 a b = (if b = 0 then Inl Division_By_Zero
     else bind_res (chk64 (a sdiv b)) (\<lambda>_. Inr (a smod b)))"

lemma chk64_Inr_iff [res_simps]: "chk64 k = Inr j \<longleftrightarrow> in_s64 k \<and> j = k"
  by (auto simp: chk64_def)

lemma chk64_in [simp]: "in_s64 k \<Longrightarrow> chk64 k = Inr k"
  by (simp add: chk64_def)

lemma add64_Inr_iff [res_simps]: "add64 a b = Inr j \<longleftrightarrow> in_s64 (a + b) \<and> j = a + b"
  by (simp add: add64_def res_simps)

lemma sub64_Inr_iff [res_simps]: "sub64 a b = Inr j \<longleftrightarrow> in_s64 (a - b) \<and> j = a - b"
  by (simp add: sub64_def res_simps)

lemma add64_in [simp]: "in_s64 (a + b) \<Longrightarrow> add64 a b = Inr (a + b)"
  by (simp add: add64_def)

lemma sub64_in [simp]: "in_s64 (a - b) \<Longrightarrow> sub64 a b = Inr (a - b)"
  by (simp add: sub64_def)

lemma in_s64_between: "in_s64 a \<Longrightarrow> in_s64 b \<Longrightarrow> a \<le> k \<Longrightarrow> k \<le> b \<Longrightarrow> in_s64 k"
  by (auto simp: in_s64_def)

lemma in_s64_small [simp]: "\<bar>k\<bar> < 2 ^ 63 \<Longrightarrow> in_s64 k"
  by (auto simp: in_s64_def abs_if split: if_splits)

subsection \<open>Integer division\<close>

lemma less_div_add1_mult: "0 < (p::int) \<Longrightarrow> x < (x div p + 1) * p"
  using div_mult_mod_eq[of x p] pos_mod_bound[of p x] unfolding distrib_right by linarith

lemma div_mult_le_self: "0 < (p::int) \<Longrightarrow> x div p * p \<le> x"
  using div_mult_mod_eq[of x p] pos_mod_sign[of p x] by linarith

lemma sdiv_smod: "(a::int) sdiv b * b + a smod b = a"
  by (simp add: sdiv_mult_smod_eq)

lemma sdiv_pos_cases:
  assumes "0 < (b::int)"
  shows "0 \<le> a \<Longrightarrow> a sdiv b = a div b" and "a < 0 \<Longrightarrow> a sdiv b = - ((- a) div b)"
  using assms by (auto simp: signed_divide_int_def sgn_if)

lemma sdiv_in_s64:
  assumes "in_s64 a" "0 < b" shows "in_s64 (a sdiv b)"
proof -
  have c: "c div b \<le> c" "0 \<le> c div b" if "0 \<le> c" for c
    using that assms(2) zdiv_mono2[of c 1 b] by (auto simp: pos_imp_zdiv_nonneg_iff)
  show ?thesis
  proof (cases "a < 0")
    case True
    then show ?thesis using assms(1) c[of "- a"] sdiv_pos_cases(2)[OF assms(2) True]
      by (simp add: in_s64_def)
  next
    case False
    then show ?thesis using assms(1) c[of a] sdiv_pos_cases(1)[OF assms(2), of a]
      by (simp add: in_s64_def)
  qed
qed

lemma sdiv_mult_self: "0 < (b::int) \<Longrightarrow> (k * b) sdiv b = k"
  using sdiv_pos_cases[of b "k * b"]
  by (cases "0 \<le> k") (auto simp: mult_less_0_iff zero_le_mult_iff minus_mult_left simp del: mult_minus_left)

lemma div64_pos [c_arith]: "in_s64 a \<Longrightarrow> 0 < b \<Longrightarrow> div64 a b = Inr (a sdiv b)"
  by (simp add: div64_def sdiv_in_s64)

lemma mod64_pos [c_arith]: "in_s64 a \<Longrightarrow> 0 < b \<Longrightarrow> mod64 a b = Inr (a smod b)"
  by (simp add: mod64_def sdiv_in_s64)

lemma smod_bounds: "0 < (b::int) \<Longrightarrow> - b < a smod b \<and> a smod b < b"
  using smod_int_range[of b a] by auto

lemma whole_part:
  assumes "0 < (b::int)"
  shows "(a - a smod b) sdiv b = a sdiv b" "a - a smod b = a sdiv b * b"
proof -
  show e: "a - a smod b = a sdiv b * b" using sdiv_smod[of a b] by linarith
  show "(a - a smod b) sdiv b = a sdiv b" unfolding e by (rule sdiv_mult_self[OF assms])
qed

lemma whole_part_in_s64:
  assumes "in_s64 a" "0 < b" shows "in_s64 (a - a smod b)"
proof (cases "0 \<le> a")
  case True
  then have "0 \<le> a smod b" "a smod b \<le> a"
    using assms(2) by (simp_all add: smod_mod_positive zmod_le_nonneg_dividend)
  then show ?thesis using assms(1) by (auto simp: in_s64_def)
next
  case False
  then have "a \<le> a smod b" "a smod b \<le> 0"
    using assms(2) smod_int_compares(4)[of a b] zmod_le_nonneg_dividend[of "- a" b]
    by (simp_all add: smod_int_alt_def)
  then show ?thesis using assms(1) False by (auto simp: in_s64_def)
qed

subsection \<open>Decimal numbers\<close>

text \<open>The text \<open>std::to_string\<close> and \<open>std::ostream\<close> give an integer.\<close>

fun string_of_nat :: "nat \<Rightarrow> string" where
  "string_of_nat n =
     (if n < 10 then [char_of (48 + n)] else string_of_nat (n div 10) @ [char_of (48 + n mod 10)])"

declare string_of_nat.simps [simp del]

definition string_of_int :: "int \<Rightarrow> string" where
  "string_of_int k = (if k < 0 then ''-'' @ string_of_nat (nat (- k)) else string_of_nat (nat k))"

text \<open>Reading the digits back gives the number, so different numbers have different texts.\<close>

definition nat_of_string :: "string \<Rightarrow> nat" where
  "nat_of_string s = foldl (\<lambda>acc c. 10 * acc + (of_char c - 48)) 0 s"

lemma nat_of_string_of_nat: "nat_of_string (string_of_nat n) = n"
proof (induction n rule: string_of_nat.induct)
  case (1 n)
  have d: "of_char (char_of (48 + k) :: char) = 48 + k" if "k < 10" for k :: nat
    using that by simp
  show ?case
  proof (cases "n < 10")
    case True
    then show ?thesis using d[of n] by (subst string_of_nat.simps) (simp add: nat_of_string_def)
  next
    case False
    then show ?thesis using 1 d[of "n mod 10"]
      by (subst string_of_nat.simps) (simp add: nat_of_string_def)
  qed
qed

lemma string_of_nat_digit: "c \<in> set (string_of_nat n) \<Longrightarrow> 48 \<le> (of_char c :: nat) \<and> of_char c < (58 :: nat)"
proof (induction n rule: string_of_nat.induct)
  case (1 n)
  show ?case
  proof (cases "n < 10")
    case True
    then show ?thesis using 1(2) by (subst (asm) string_of_nat.simps) auto
  next
    case False
    then show ?thesis using 1 by (subst (asm) string_of_nat.simps) auto
  qed
qed

lemma string_of_nat_ne: "string_of_nat n \<noteq> []"
  by (subst string_of_nat.simps) simp

lemma string_of_int_inj: "string_of_int a = string_of_int b \<longleftrightarrow> a = b"
proof -
  have neg: "string_of_nat m \<noteq> CHR ''-'' # string_of_nat k" for m k
  proof
    assume "string_of_nat m = CHR ''-'' # string_of_nat k"
    then have "CHR ''-'' \<in> set (string_of_nat m)" by simp
    from string_of_nat_digit[OF this] show False by simp
  qed
  have inj: "string_of_nat m = string_of_nat k \<longleftrightarrow> m = k" for m k
    using nat_of_string_of_nat by metis
  show ?thesis using neg[of "nat a" "nat (- b)"] neg[of "nat b" "nat (- a)"]
    by (auto simp: string_of_int_def inj)
qed

end
