(* ===== verification/Binary64.thy ===== *)
theory Binary64
  imports Prelude
begin

text \<open>
  The type \<open>double\<close>: IEEE 754 binary64 values as their 64-bit patterns, with
  round-to-nearest-even arithmetic computed exactly over the rationals and rounded once,
  as the SSE2 instructions of the target do. Not-a-number results are one quiet pattern
  (no code of the repository looks at a payload). The lemmas show that rounding is
  monotone, exact on the representable values and within half a unit in the last place.
\<close>

subsection \<open>Patterns and values\<close>

type_synonym b64 = "64 word"

datatype fp = NaN | Inf bool | Fin rat

abbreviation (input) inf_bits :: int where "inf_bits \<equiv> 2047 * 2 ^ 52"

definition b64_neg :: "b64 \<Rightarrow> bool" where
  "b64_neg w \<longleftrightarrow> 2 ^ 63 \<le> uint w"

definition b64_bits :: "b64 \<Rightarrow> int" where
  "b64_bits w = uint w mod 2 ^ 63"

text \<open>The value of a finite magnitude pattern: a biased exponent and a 52-bit fraction.\<close>

definition mag :: "int \<Rightarrow> rat" where
  "mag b = (let e = b div 2 ^ 52; f = b mod 2 ^ 52 in
     if e = 0 then of_int f * 2 powi (-1074)
     else of_int (2 ^ 52 + f) * 2 powi (e - 1075))"

definition fp_of :: "b64 \<Rightarrow> fp" where
  "fp_of w = (let b = b64_bits w in
     if b < inf_bits then Fin (if b64_neg w then - mag b else mag b)
     else if b = inf_bits then Inf (b64_neg w) else NaN)"

definition mk_b64 :: "bool \<Rightarrow> int \<Rightarrow> b64" where
  "mk_b64 s b = word_of_int ((if s then 2 ^ 63 else 0) + b)"

definition b64_nan :: b64 where "b64_nan = mk_b64 True (2047 * 2 ^ 52 + 2 ^ 51)"
definition b64_inf :: "bool \<Rightarrow> b64" where "b64_inf s = mk_b64 s inf_bits"

subsection \<open>Rounding\<close>

definition rne :: "rat \<Rightarrow> int" where
  "rne y = (let f = \<lfloor>y\<rfloor>; r = y - of_int f in
     if r < 1 / 2 then f else if 1 / 2 < r then f + 1 else if even f then f else f + 1)"

fun blen :: "int \<Rightarrow> int" where
  "blen n = (if n \<le> 0 then 0 else 1 + blen (n div 2))"

declare blen.simps [simp del]

definition ilog2 :: "rat \<Rightarrow> int" where
  "ilog2 x = (let (n, d) = quotient_of x; k = blen n - blen d
     in if x < 2 powi k then k - 1 else k)"

text \<open>The pattern of a non-negative rational, before overflow to infinity is considered.\<close>

definition round_raw :: "rat \<Rightarrow> int" where
  "round_raw x = (if x = 0 then 0 else
     let q = max (-1074) (ilog2 x - 52) in (q + 1074) * 2 ^ 52 + rne (x / 2 powi q))"

definition fp_round :: "bool \<Rightarrow> rat \<Rightarrow> b64" where
  "fp_round s x = mk_b64 (if x = 0 then s else x < 0) (min inf_bits (round_raw \<bar>x\<bar>))"

subsection \<open>Operations\<close>

definition b64_uminus :: "b64 \<Rightarrow> b64" where
  "b64_uminus a = mk_b64 (\<not> b64_neg a) (b64_bits a)"

definition b64_abs :: "b64 \<Rightarrow> b64" where
  "b64_abs a = mk_b64 False (b64_bits a)"

definition b64_add :: "b64 \<Rightarrow> b64 \<Rightarrow> b64" where
  "b64_add a b = (case (fp_of a, fp_of b) of
       (Fin x, Fin y) \<Rightarrow> fp_round (b64_neg a \<and> b64_neg b) (x + y)
     | (Inf s, Inf t) \<Rightarrow> if s = t then a else b64_nan
     | (Inf s, Fin y) \<Rightarrow> a
     | (Fin x, Inf t) \<Rightarrow> b
     | _ \<Rightarrow> b64_nan)"

definition b64_sub :: "b64 \<Rightarrow> b64 \<Rightarrow> b64" where
  "b64_sub a b = b64_add a (b64_uminus b)"

definition b64_mul :: "b64 \<Rightarrow> b64 \<Rightarrow> b64" where
  "b64_mul a b = (let s = (b64_neg a \<noteq> b64_neg b) in case (fp_of a, fp_of b) of
       (Fin x, Fin y) \<Rightarrow> fp_round s (x * y)
     | (Inf _, Inf _) \<Rightarrow> b64_inf s
     | (Inf _, Fin y) \<Rightarrow> if y = 0 then b64_nan else b64_inf s
     | (Fin x, Inf _) \<Rightarrow> if x = 0 then b64_nan else b64_inf s
     | _ \<Rightarrow> b64_nan)"

definition b64_div :: "b64 \<Rightarrow> b64 \<Rightarrow> b64" where
  "b64_div a b = (let s = (b64_neg a \<noteq> b64_neg b) in case (fp_of a, fp_of b) of
       (Fin x, Fin y) \<Rightarrow> if y \<noteq> 0 then fp_round s (x / y)
                         else if x = 0 then b64_nan else b64_inf s
     | (Inf _, Fin y) \<Rightarrow> b64_inf s
     | (Fin x, Inf _) \<Rightarrow> mk_b64 s 0
     | _ \<Rightarrow> b64_nan)"

fun fp_less :: "fp \<Rightarrow> fp \<Rightarrow> bool" where
  "fp_less (Fin x) (Fin y) \<longleftrightarrow> x < y"
| "fp_less (Inf s) (Fin y) \<longleftrightarrow> s"
| "fp_less (Fin x) (Inf t) \<longleftrightarrow> \<not> t"
| "fp_less (Inf s) (Inf t) \<longleftrightarrow> s \<and> \<not> t"
| "fp_less _ _ \<longleftrightarrow> False"

definition b64_less :: "b64 \<Rightarrow> b64 \<Rightarrow> bool" where
  "b64_less a b = fp_less (fp_of a) (fp_of b)"

definition b64_eq :: "b64 \<Rightarrow> b64 \<Rightarrow> bool" where
  "b64_eq a b \<longleftrightarrow> fp_of a = fp_of b \<and> fp_of a \<noteq> NaN"

text \<open>Conversions: an integer, a literal of the source, and the truncating cast back.\<close>

definition b64_of_int :: "int \<Rightarrow> b64" where
  "b64_of_int k = fp_round False (of_int k)"

definition b64_lit :: "rat \<Rightarrow> b64" where
  "b64_lit x = fp_round False x"

definition rat_trunc :: "rat \<Rightarrow> int" where
  "rat_trunc x = (if x < 0 then \<lceil>x\<rceil> else \<lfloor>x\<rfloor>)"

definition b64_to_int :: "(int \<Rightarrow> bool) \<Rightarrow> b64 \<Rightarrow> int res" where
  "b64_to_int fits w = (case fp_of w of
       Fin x \<Rightarrow> if fits (rat_trunc x) then Inr (rat_trunc x) else Inl Bad_Float_Cast
     | _ \<Rightarrow> Inl Bad_Float_Cast)"

subsection \<open>Powers of two and binary logarithms\<close>

lemma two_powi_pos [simp]: "(0::rat) < 2 powi k"
  by (simp add: zero_less_power_int)

lemma two_powi_le: "m \<le> n \<Longrightarrow> (2::rat) powi m \<le> 2 powi n"
  by (simp add: power_int_increasing)

lemma two_powi_less: "m < n \<Longrightarrow> (2::rat) powi m < 2 powi n"
  by (simp add: power_int_strict_increasing)

lemma two_powi_less_iff: "(2::rat) powi m < 2 powi n \<longleftrightarrow> m < n"
  using two_powi_less[of m n] two_powi_le[of n m] by linarith

lemma two_powi_add: "(2::rat) powi (m + n) = 2 powi m * 2 powi n"
  by (simp add: power_int_add)

lemma two_powi_diff: "(2::rat) powi (m - n) = 2 powi m / 2 powi n"
  by (simp add: power_int_diff)

lemma blen_bounds:
  "0 < n \<Longrightarrow> 2 powi (blen n - 1) \<le> (of_int n :: rat) \<and> of_int n < (2::rat) powi blen n"
proof (induction n rule: blen.induct)
  case (1 n)
  have s: "blen n = 1 + blen (n div 2)" using 1(2) by (subst blen.simps) simp
  show ?case
  proof (cases "n = 1")
    case True
    then show ?thesis by (simp add: blen.simps)
  next
    case False
    let ?h = "n div 2"
    have h: "0 < ?h" using 1(2) False by linarith
    have IH: "2 powi (blen ?h - 1) \<le> (of_int ?h :: rat)" "of_int ?h < (2::rat) powi blen ?h"
      using 1(1)[OF _ h] 1(2) by auto
    have b: "2 * ?h \<le> n" "n \<le> 2 * ?h + 1" by linarith+
    have b1: "2 * (of_int ?h :: rat) \<le> of_int n" "(of_int n :: rat) \<le> 2 * of_int ?h + 1"
      using b of_int_le_iff[where 'a = rat, of "2 * ?h" n]
        of_int_le_iff[where 'a = rat, of n "2 * ?h + 1"] by simp_all
    have p: "0 \<le> blen ?h" using h blen.simps[of ?h]
      by (metis IH(2) h int_one_le_iff_zero_less linorder_not_le nle_le of_int_1_le_iff
          order_less_le_trans power_int_0_right power_int_mono_iff two_powi_le)
    have "of_int ?h + 1 \<le> (2::rat) powi blen ?h"
    proof -
      have e: "(2::rat) powi blen ?h = of_int (2 ^ nat (blen ?h))"
        using p by (simp add: power_int_def)
      show ?thesis using IH(2) unfolding e by (metis of_int_less_iff of_int_add of_int_1 of_int_le_iff zless_imp_add1_zle)
    qed
    moreover have "(2::rat) powi blen n = 2 * 2 powi blen ?h"
      using two_powi_add[of 1 "blen ?h"] by (simp add: s)
    moreover have "(2::rat) powi (blen n - 1) = 2 * 2 powi (blen ?h - 1)"
      using two_powi_add[of 1 "blen ?h - 1"] by (simp add: s)
    ultimately show ?thesis using IH b1 by linarith
  qed
qed

lemma ilog2_bounds:
  assumes "0 < x"
  shows "2 powi ilog2 x \<le> x" and "x < 2 powi (ilog2 x + 1)"
proof -
  obtain n d where nd: "quotient_of x = (n, d)" by fastforce
  have d: "0 < d" using quotient_of_denom_pos[OF nd] .
  have x: "x = of_int n / of_int d" using quotient_of_div[OF nd] .
  have n: "0 < n" using assms d unfolding x by (simp add: zero_less_divide_iff)
  let ?k = "blen n - blen d"
  have bn: "2 powi (blen n - 1) \<le> (of_int n :: rat)" "of_int n < (2::rat) powi blen n"
    using blen_bounds[OF n] by auto
  have bd: "2 powi (blen d - 1) \<le> (of_int d :: rat)" "of_int d < (2::rat) powi blen d"
    using blen_bounds[OF d] by auto
  have "x < 2 powi blen n / 2 powi (blen d - 1)"
    unfolding x using bn bd d n by (intro frac_less) (auto)
  then have up: "x < 2 powi (?k + 1)"
    using two_powi_diff[of "blen n" "blen d - 1"] by (simp add: algebra_simps)
  have "2 powi (blen n - 1) / 2 powi blen d \<le> x"
    unfolding x using bn bd d n by (intro frac_le) auto
  then have lo: "2 powi (?k - 1) \<le> x"
    using two_powi_diff[of "blen n - 1" "blen d"] by (simp add: algebra_simps)
  have il: "ilog2 x = (if x < 2 powi ?k then ?k - 1 else ?k)"
    by (simp add: ilog2_def nd Let_def)
  show "2 powi ilog2 x \<le> x" using lo by (simp add: il)
  show "x < 2 powi (ilog2 x + 1)" using up by (simp add: il)
qed

lemma ilog2_unique:
  assumes "2 powi k \<le> x" and "x < 2 powi (k + 1)"
  shows "ilog2 x = k"
proof -
  have p: "0 < x" using assms(1) two_powi_pos[of k] by linarith
  have "(2::rat) powi k < 2 powi (ilog2 x + 1)" "(2::rat) powi ilog2 x < 2 powi (k + 1)"
    using ilog2_bounds[OF p] assms by linarith+
  then show ?thesis by (simp add: two_powi_less_iff)
qed

lemma ilog2_mono: "0 < x \<Longrightarrow> x \<le> y \<Longrightarrow> ilog2 x \<le> ilog2 y"
proof -
  assume a: "0 < x" "x \<le> y"
  then have "(2::rat) powi ilog2 x < 2 powi (ilog2 y + 1)"
    using ilog2_bounds[of x] ilog2_bounds[of y] by linarith
  then show ?thesis by (simp add: two_powi_less_iff)
qed

lemma ilog2_less: "0 < x \<Longrightarrow> x < 2 powi k \<Longrightarrow> ilog2 x < k"
  using ilog2_bounds(1)[of x] two_powi_less_iff[of "ilog2 x" k] by linarith

subsection \<open>Rounding to an integer\<close>

lemma rne_cases: "rne y = \<lfloor>y\<rfloor> \<or> rne y = \<lfloor>y\<rfloor> + 1"
  by (auto simp: rne_def Let_def)

lemma rne_error: "\<bar>of_int (rne y) - y\<bar> \<le> 1 / 2"
  by (auto simp: rne_def Let_def abs_if) linarith+

lemma rne_of_int [simp]: "rne (of_int k) = k"
  by (simp add: rne_def Let_def)

lemma rne_mono:
  assumes "x \<le> y" shows "rne x \<le> rne y"
proof (cases "\<lfloor>x\<rfloor> = \<lfloor>y\<rfloor>")
  case True
  then show ?thesis using assms by (auto simp: rne_def Let_def)
next
  case False
  then have "\<lfloor>x\<rfloor> + 1 \<le> \<lfloor>y\<rfloor>" using floor_mono[OF assms] by linarith
  then show ?thesis using rne_cases[of x] rne_cases[of y] by linarith
qed

lemma rne_ge: "of_int k \<le> y \<Longrightarrow> k \<le> rne y"
  using rne_mono[of "of_int k" y] by simp

lemma rne_le: "y \<le> of_int k \<Longrightarrow> rne y \<le> k"
  using rne_mono[of y "of_int k"] by simp

subsection \<open>Magnitude patterns\<close>

lemma mag_0 [simp]: "mag 0 = 0"
  by (simp add: mag_def)

lemma mag_shift:
  assumes "0 \<le> E" "0 \<le> m" "m \<le> 2 ^ 53" "E = 0 \<or> 2 ^ 52 \<le> m"
  shows "mag (E * 2 ^ 52 + m) = of_int m * 2 powi (E - 1074)"
proof -
  consider "m < 2 ^ 52" "E = 0" | "2 ^ 52 \<le> m" "m < 2 ^ 53" | "m = 2 ^ 53"
    using assms by linarith
  then show ?thesis
  proof cases
    case 1
    then show ?thesis using assms(2) by (simp add: mag_def)
  next
    case 2
    have "(E * 2 ^ 52 + m) div 2 ^ 52 = E + 1"
      using 2 by (intro int_div_pos_eq[where r = "m - 2 ^ 52"]) auto
    moreover have "(E * 2 ^ 52 + m) mod 2 ^ 52 = m - 2 ^ 52"
      using 2 by (intro int_mod_pos_eq[where q = "E + 1"]) auto
    ultimately show ?thesis using assms(1) by (simp add: mag_def Let_def)
  next
    case 3
    have "(E * 2 ^ 52 + m) div 2 ^ 52 = E + 2"
      using 3 by (intro int_div_pos_eq[where r = 0]) auto
    moreover have "(E * 2 ^ 52 + m) mod 2 ^ 52 = 0"
      using 3 by (intro int_mod_pos_eq[where q = "E + 2"]) auto
    moreover have "(2::rat) powi (E + 2 - 1075) = 2 * 2 powi (E - 1074)"
      using two_powi_add[of 1 "E - 1074"] by (simp add: algebra_simps)
    ultimately show ?thesis using assms(1) 3 by (simp add: mag_def Let_def)
  qed
qed

lemma mag_decomp:
  fixes b :: int
  assumes "0 \<le> b"
  obtains E m :: int where "b = E * 2 ^ 52 + m" "0 \<le> E" "0 \<le> m" "m < 2 ^ 53" "E = 0 \<or> 2 ^ 52 \<le> m"
proof (cases "b < 2 ^ 52")
  case True
  with assms show ?thesis by (intro that[of 0 b]) auto
next
  case False
  show ?thesis
  proof (rule that[of "b div 2 ^ 52 - 1" "b mod 2 ^ 52 + 2 ^ 52"])
    show "b = (b div 2 ^ 52 - 1) * 2 ^ 52 + (b mod 2 ^ 52 + 2 ^ 52)"
      using div_mult_mod_eq[of b "2 ^ 52"] by (simp add: left_diff_distrib)
    show "0 \<le> b div 2 ^ 52 - 1" using zdiv_mono1[of "2 ^ 52" b "2 ^ 52"] False by simp
    show "b mod 2 ^ 52 + 2 ^ 52 < 2 ^ 53" using pos_mod_bound[of "2 ^ 52" b] by simp
  qed auto
qed

text \<open>The pieces of a rounding: the exponent step and the significand it rounds.\<close>

lemma round_raw_parts:
  assumes "0 < x"
  obtains E m where
    "round_raw x = E * 2 ^ 52 + m" "0 \<le> E" "0 \<le> m" "m \<le> 2 ^ 53" "E = 0 \<or> 2 ^ 52 \<le> m"
    "E = max 0 (ilog2 x + 1022)" "m = rne (x / 2 powi (E - 1074))"
proof -
  let ?q = "max (-1074) (ilog2 x - 52)"
  let ?y = "x / 2 powi ?q"
  have y0: "0 < ?y" using assms by simp
  have "x < 2 powi (?q + 53)"
    using ilog2_bounds(2)[OF assms] two_powi_le[of "ilog2 x + 1" "?q + 53"] by linarith
  then have "?y < 2 powi 53"
    by (simp add: two_powi_add[of ?q 53] divide_simps mult.commute)
  then have y1: "?y \<le> of_int (2 ^ 53)" by simp
  have y2: "of_int (2 ^ 52) \<le> ?y" if "?q \<noteq> -1074"
  proof -
    have "?q = ilog2 x - 52" using that by linarith
    then have "2 powi (?q + 52) \<le> x" using ilog2_bounds(1)[OF assms] by simp
    then show ?thesis by (simp add: two_powi_add[of ?q 52] divide_simps mult.commute)
  qed
  show ?thesis
  proof (rule that[of "?q + 1074" "rne ?y"])
    show "round_raw x = (?q + 1074) * 2 ^ 52 + rne ?y"
      using assms by (simp add: round_raw_def Let_def)
    show "0 \<le> rne ?y" using rne_ge[of 0 ?y] y0 by simp
    show "rne ?y \<le> 2 ^ 53" using rne_le[OF y1] .
    show "?q + 1074 = 0 \<or> 2 ^ 52 \<le> rne ?y" using rne_ge y2 by (cases "?q = -1074") auto
    show "?q + 1074 = max 0 (ilog2 x + 1022)" by linarith
  qed auto
qed

lemma round_raw_0 [simp]: "round_raw 0 = 0"
  by (simp add: round_raw_def)

lemma round_raw_nonneg: "0 \<le> x \<Longrightarrow> 0 \<le> round_raw x"
  by (cases "x = 0") (simp, rule round_raw_parts[of x], auto)

lemma mag_round_raw:
  assumes "0 < x"
  shows "mag (round_raw x) = of_int (rne (x / 2 powi (max (-1074) (ilog2 x - 52))))
           * 2 powi (max (-1074) (ilog2 x - 52))"
proof (rule round_raw_parts[OF assms])
  fix E m
  assume h: "round_raw x = E * 2 ^ 52 + m" "0 \<le> E" "0 \<le> m" "m \<le> 2 ^ 53" "E = 0 \<or> 2 ^ 52 \<le> m"
    "E = max 0 (ilog2 x + 1022)" "m = rne (x / 2 powi (E - 1074))"
  have "max (-1074) (ilog2 x - 52) = E - 1074" using h(6) by linarith
  then show ?thesis unfolding h(1) mag_shift[OF h(2-5)] by (simp only: h(7))
qed

lemma mag_nonneg: "0 \<le> b \<Longrightarrow> 0 \<le> mag b"
  by (simp add: mag_def Let_def less_imp_le)

text \<open>Rounding is exact on the values of the patterns.\<close>

lemma round_raw_mag:
  assumes "0 \<le> b" shows "round_raw (mag b) = b"
proof (rule mag_decomp[OF assms])
  fix E m
  assume h: "b = E * 2 ^ 52 + m" "0 \<le> E" "0 \<le> m" "m < 2 ^ 53" "E = 0 \<or> 2 ^ 52 \<le> m"
  have x: "mag b = of_int m * 2 powi (E - 1074)" unfolding h(1) by (rule mag_shift) (use h in auto)
  show ?thesis
  proof (cases "m = 0")
    case True
    then show ?thesis using h by simp
  next
    case False
    have p: "0 < mag b" using False h(3) by (simp add: x)
    have "(of_int m :: rat) < 2 powi 53" using h(4) by (simp add: of_int_less_iff[symmetric] del: of_int_less_iff)
    then have up: "mag b < 2 powi (E - 1074 + 53)"
      unfolding x two_powi_add[of "E - 1074" 53] by simp
    have q: "max (-1074) (ilog2 (mag b) - 52) = E - 1074"
    proof (cases "E = 0")
      case True
      then show ?thesis using ilog2_less[OF p up] by simp
    next
      case False
      then have "2 ^ 52 \<le> m" using h(5) by simp
      then have "(2::rat) powi 52 \<le> of_int m" by (simp add: of_int_le_iff[symmetric] del: of_int_le_iff)
      then have "2 powi (E - 1074 + 52) \<le> mag b"
        unfolding x two_powi_add[of "E - 1074" 52] by simp
      then have "ilog2 (mag b) = E - 1074 + 52" using up by (intro ilog2_unique) (auto simp: algebra_simps)
      then show ?thesis using False h(2) by simp
    qed
    have "mag b / 2 powi (E - 1074) = of_int m" by (simp add: x)
    then show ?thesis unfolding round_raw_def Let_def q using p h(1) by simp
  qed
qed

lemma round_raw_mono:
  assumes "0 \<le> x" "x \<le> y" shows "round_raw x \<le> round_raw y"
proof (cases "x = 0")
  case True
  then show ?thesis using round_raw_nonneg[of y] assms by simp
next
  case False
  then have p: "0 < x" "0 < y" using assms by linarith+
  obtain E m where x: "round_raw x = E * 2 ^ 52 + m" "0 \<le> E" "m \<le> 2 ^ 53"
    "E = max 0 (ilog2 x + 1022)" "m = rne (x / 2 powi (E - 1074))"
    using round_raw_parts[OF p(1)] by metis
  obtain F n where y: "round_raw y = F * 2 ^ 52 + n" "0 \<le> n" "F = 0 \<or> 2 ^ 52 \<le> n"
    "F = max 0 (ilog2 y + 1022)" "n = rne (y / 2 powi (F - 1074))"
    using round_raw_parts[OF p(2)] by metis
  have "E \<le> F" using ilog2_mono[OF p(1) assms(2)] x(4) y(4) by linarith
  then consider "E = F" | "E + 1 \<le> F" by linarith
  then show ?thesis
  proof cases
    case 1
    then have "m \<le> n" unfolding x(5) y(5) using assms(2) by (intro rne_mono) (simp add: divide_right_mono)
    then show ?thesis using 1 x y by simp
  next
    case 2
    then have "2 ^ 52 \<le> n" using y(3) x(2) by linarith
    moreover have "(E + 1) * 2 ^ 52 \<le> F * 2 ^ 52" using 2 by (intro mult_right_mono) auto
    ultimately show ?thesis using x(1,3) y(1) by (simp add: algebra_simps)
  qed
qed

lemma mag_less: "0 \<le> b \<Longrightarrow> b < c \<Longrightarrow> mag b < mag c"
  using round_raw_mono[of "mag c" "mag b"] by (metis linorder_not_less mag_nonneg order_le_less_trans order_less_imp_le round_raw_mag)

text \<open>Half a unit in the last place: the error of rounding a value below \<open>2 powi (k + 1)\<close>.\<close>

lemma round_raw_error:
  assumes "0 \<le> x" "x < 2 powi (k + 1)" "-1022 \<le> k"
  shows "\<bar>mag (round_raw x) - x\<bar> \<le> 2 powi (k - 53)"
proof (cases "x = 0")
  case False
  then have p: "0 < x" using assms by linarith
  let ?q = "max (-1074) (ilog2 x - 52)"
  have q: "?q \<le> k - 52" using ilog2_less[OF p assms(2)] assms(3) by linarith
  have "\<bar>mag (round_raw x) - x\<bar> = \<bar>(of_int (rne (x / 2 powi ?q)) - x / 2 powi ?q) * 2 powi ?q\<bar>"
    by (simp add: mag_round_raw[OF p] algebra_simps)
  also have "\<dots> = \<bar>of_int (rne (x / 2 powi ?q)) - x / 2 powi ?q\<bar> * 2 powi ?q"
    by (simp add: abs_mult)
  also have "\<dots> \<le> 1 / 2 * 2 powi ?q"
    by (intro mult_right_mono rne_error) (simp add: less_imp_le)
  also have "\<dots> \<le> 1 / 2 * 2 powi (k - 52)" using two_powi_le[OF q] by simp
  also have "\<dots> = 2 powi (k - 53)" using two_powi_diff[of "k - 52" 1] by (simp add: algebra_simps)
  finally show ?thesis .
qed simp

subsection \<open>Rounding of signed values\<close>

definition rnd :: "rat \<Rightarrow> rat" where
  "rnd x = (if x < 0 then - mag (round_raw (- x)) else mag (round_raw x))"

definition representable :: "rat \<Rightarrow> bool" where
  "representable x \<longleftrightarrow> (\<exists>b \<ge> 0. \<bar>x\<bar> = mag b)"

lemma rnd_0 [simp]: "rnd 0 = 0"
  by (simp add: rnd_def)

lemma rnd_minus: "rnd (- x) = - rnd x"
  by (auto simp: rnd_def not_less order.order_iff_strict)

lemma rnd_nonneg: "0 \<le> x \<Longrightarrow> 0 \<le> rnd x"
  by (simp add: rnd_def mag_nonneg round_raw_nonneg)

lemma mag_mono: "0 \<le> b \<Longrightarrow> b \<le> c \<Longrightarrow> mag b \<le> mag c"
  using mag_less[of b c] by (cases "b = c") auto

lemma rnd_mono:
  assumes "x \<le> y" shows "rnd x \<le> rnd y"
proof -
  have up: "mag (round_raw a) \<le> mag (round_raw b)" if "0 \<le> a" "a \<le> b" for a b
    using that by (intro mag_mono round_raw_mono round_raw_nonneg)
  consider "0 \<le> x" | "x < 0" "0 \<le> y" | "y < 0" using assms by linarith
  then show ?thesis
  proof cases
    case 1 then show ?thesis using assms up[of x y] by (simp add: rnd_def)
  next
    case 2 then show ?thesis
      using mag_nonneg[OF round_raw_nonneg, of y] mag_nonneg[OF round_raw_nonneg, of "- x"]
      by (simp add: rnd_def)
  next
    case 3 then show ?thesis using assms up[of "- y" "- x"] by (simp add: rnd_def)
  qed
qed

lemma rnd_exact: "representable x \<Longrightarrow> rnd x = x"
  by (auto simp: representable_def rnd_def round_raw_mag abs_if split: if_splits)

lemma rnd_error:
  assumes "\<bar>x\<bar> < 2 powi (k + 1)" "-1022 \<le> k"
  shows "\<bar>rnd x - x\<bar> \<le> 2 powi (k - 53)"
  using round_raw_error[of "\<bar>x\<bar>" k] assms
  by (cases "x < 0") (simp_all add: rnd_def abs_minus_commute)

lemma representable_minus [simp]: "representable (- x) = representable x"
  by (simp add: representable_def)

lemma representable_rnd [simp]: "representable (rnd x)"
  by (auto simp: representable_def rnd_def mag_nonneg round_raw_nonneg
      intro!: exI[of _ "round_raw \<bar>x\<bar>"])

text \<open>Integers of at most 53 bits, scaled by a power of two, are representable.\<close>

lemma representable_scaled_nat:
  assumes "0 \<le> m" "m \<le> 2 ^ 53"
  shows "representable (of_int m * 2 powi (int n - 1074))"
  using assms
proof (induction n arbitrary: m)
  case 0
  have "mag (0 * 2 ^ 52 + m) = of_int m * 2 powi (0 - 1074)"
    by (rule mag_shift) (use 0 in auto)
  then show ?case using 0 by (auto simp: representable_def abs_mult intro!: exI[of _ m])
next
  case (Suc n)
  show ?case
  proof (cases "2 ^ 52 \<le> m")
    case True
    have "mag (int (Suc n) * 2 ^ 52 + m) = of_int m * 2 powi (int (Suc n) - 1074)"
      by (rule mag_shift) (use Suc.prems True in auto)
    then show ?thesis using Suc.prems
      by (auto simp: representable_def abs_mult intro!: exI[of _ "int (Suc n) * 2 ^ 52 + m"])
  next
    case False
    have "(2::rat) powi (int (Suc n) - 1074) = 2 * 2 powi (int n - 1074)"
      using two_powi_add[of 1 "int n - 1074"] by (simp add: algebra_simps)
    then have e: "of_int m * 2 powi (int (Suc n) - 1074) = (of_int (2 * m) * 2 powi (int n - 1074) :: rat)"
      by simp
    show ?thesis unfolding e by (rule Suc.IH) (use Suc.prems False in auto)
  qed
qed

lemma representable_scaled:
  assumes "\<bar>m\<bar> \<le> 2 ^ 53" "-1074 \<le> j"
  shows "representable (of_int m * 2 powi j)"
proof -
  have "representable (of_int \<bar>m\<bar> * 2 powi (int (nat (j + 1074)) - 1074))"
    by (rule representable_scaled_nat) (use assms in auto)
  then have "representable (of_int \<bar>m\<bar> * 2 powi j)" using assms(2) by simp
  then show ?thesis
    using representable_minus[of "of_int m * 2 powi j"] by (cases "m < 0") simp_all
qed

lemma representable_int: "\<bar>m\<bar> \<le> 2 ^ 53 \<Longrightarrow> representable (of_int m)"
  using representable_scaled[of m 0] by simp

lemma rnd_of_int: "\<bar>m\<bar> \<le> 2 ^ 53 \<Longrightarrow> rnd (of_int m) = of_int m"
  by (rule rnd_exact, rule representable_int)

text \<open>Rounding an integer gives an integer: above 53 bits the step is a power of two at least 2.\<close>

lemma rnd_int_integral: "\<exists>j. rnd (of_int k) = of_int j"
proof -
  have pos: "\<exists>j. rnd (of_int k) = of_int j" if "2 ^ 53 < k" for k :: int
  proof -
    have "(of_int (2 ^ 53) :: rat) < of_int k" using that by (simp only: of_int_less_iff)
    then have b: "2 powi 53 < (of_int k :: rat)" by simp
    then have p: "(0::rat) < of_int k" using two_powi_pos[of 53] by linarith
    have "(2::rat) powi 53 < 2 powi (ilog2 (of_int k) + 1)"
      using ilog2_bounds(2)[OF p] b by linarith
    then have "52 < ilog2 (rat_of_int k)" unfolding two_powi_less_iff by simp
    then have q: "max (-1074) (ilog2 (rat_of_int k) - 52) = ilog2 (rat_of_int k) - 52"
      "0 \<le> ilog2 (rat_of_int k) - 52" by simp_all
    have "(2::rat) powi (ilog2 (rat_of_int k) - 52) = of_int (2 ^ nat (ilog2 (rat_of_int k) - 52))"
      using q(2) by (simp add: power_int_def)
    then have e: "mag (round_raw (rat_of_int k)) =
        of_int (rne (rat_of_int k / 2 powi (ilog2 (rat_of_int k) - 52)) * 2 ^ nat (ilog2 (rat_of_int k) - 52))"
      using mag_round_raw[OF p] unfolding q(1) by simp
    have "rnd (of_int k) = mag (round_raw (rat_of_int k))" using p by (simp add: rnd_def)
    then show ?thesis unfolding e by blast
  qed
  show ?thesis
  proof (cases "\<bar>k\<bar> \<le> 2 ^ 53")
    case True
    then show ?thesis using rnd_of_int by blast
  next
    case False
    then obtain j where "rnd (of_int \<bar>k\<bar>) = of_int j" using pos[of "\<bar>k\<bar>"] by auto
    then have "rnd (of_int k) = of_int (if k < 0 then - j else j)"
      using rnd_minus[of "of_int k"] by (auto split: if_splits)
    then show ?thesis by blast
  qed
qed

subsection \<open>The operations compute rounded results\<close>

lemma uint_mk_b64:
  assumes "0 \<le> b" "b < 2 ^ 63"
  shows "uint (mk_b64 s b) = (if s then 2 ^ 63 else 0) + b"
proof -
  have "uint (mk_b64 s b) = ((if s then 2 ^ 63 else 0) + b) mod 2 ^ 64"
    unfolding mk_b64_def uint_word_of_int by simp
  then show ?thesis using assms by (auto intro!: mod_pos_pos_trivial)
qed

lemma mk_b64_fields:
  assumes "0 \<le> b" "b < 2 ^ 63"
  shows "b64_neg (mk_b64 s b) = s" "b64_bits (mk_b64 s b) = b"
  using assms by (auto simp: b64_neg_def b64_bits_def uint_mk_b64[OF assms])

lemma b64_bits_range: "0 \<le> b64_bits w" "b64_bits w < 2 ^ 63"
  by (simp_all add: b64_bits_def)

lemma mk_b64_bits [simp]: "mk_b64 (b64_neg w) (b64_bits w) = w"
proof -
  have u: "0 \<le> uint w" "uint w < 2 ^ 64" using uint_lt2p[of w] by simp_all
  have "uint (mk_b64 (b64_neg w) (b64_bits w)) = (if b64_neg w then 2 ^ 63 else 0) + b64_bits w"
    by (rule uint_mk_b64[OF b64_bits_range])
  also have "\<dots> = uint w"
  proof (cases "2 ^ 63 \<le> uint w")
    case True
    then have "uint w mod 2 ^ 63 = uint w - 2 ^ 63"
      using u by (intro int_mod_pos_eq[where q = 1]) auto
    then show ?thesis using True by (simp add: b64_neg_def b64_bits_def)
  next
    case False
    then show ?thesis using u by (simp add: b64_neg_def b64_bits_def)
  qed
  finally show ?thesis by (simp add: word_uint_eq_iff)
qed

lemma fp_of_mk:
  assumes "0 \<le> b" "b < inf_bits"
  shows "fp_of (mk_b64 s b) = Fin (if s then - mag b else mag b)"
  using assms mk_b64_fields[of b s] by (simp add: fp_of_def Let_def)

definition fits64 :: "rat \<Rightarrow> bool" where
  "fits64 x \<longleftrightarrow> round_raw \<bar>x\<bar> < inf_bits"

lemma fits64_bound:
  assumes "\<bar>x\<bar> \<le> 2 powi 1023" shows "fits64 x"
proof -
  have "mag (2045 * 2 ^ 52 + 2 ^ 52) = of_int (2 ^ 52) * 2 powi (2045 - 1074)"
    by (rule mag_shift) auto
  also have "\<dots> = 2 powi 52 * 2 powi 971" by simp
  also have "\<dots> = (2 powi 1023 :: rat)" by (simp only: two_powi_add[symmetric]) simp
  finally have m: "mag (2046 * 2 ^ 52) = 2 powi 1023" by (simp add: algebra_simps)
  have "round_raw \<bar>x\<bar> \<le> round_raw (mag (2046 * 2 ^ 52))"
    unfolding m using assms by (intro round_raw_mono) auto
  then show ?thesis by (simp add: round_raw_mag fits64_def)
qed

lemma fp_of_round:
  assumes "fits64 x" shows "fp_of (fp_round s x) = Fin (rnd x)"
proof -
  have b: "0 \<le> round_raw \<bar>x\<bar>" "round_raw \<bar>x\<bar> < inf_bits"
    using assms by (simp_all add: fits64_def round_raw_nonneg)
  then have "fp_of (fp_round s x)
      = Fin (if (if x = 0 then s else x < 0) then - mag (round_raw \<bar>x\<bar>) else mag (round_raw \<bar>x\<bar>))"
    using fp_of_mk[OF b] by (simp add: fp_round_def min_def)
  then show ?thesis by (auto simp: rnd_def)
qed

lemma b64_of_int_val: "\<bar>k\<bar> \<le> 2 ^ 53 \<Longrightarrow> fp_of (b64_of_int k) = Fin (of_int k)"
proof -
  assume k: "\<bar>k\<bar> \<le> 2 ^ 53"
  have "(of_int \<bar>k\<bar> :: rat) \<le> of_int (2 ^ 53)" using k by (simp only: of_int_le_iff)
  also have "\<dots> \<le> 2 powi 1023" using two_powi_le[of 53 1023] by simp
  finally have "fits64 (of_int k)" by (intro fits64_bound) simp
  then show ?thesis unfolding b64_of_int_def by (simp add: fp_of_round rnd_of_int[OF k])
qed

lemma b64_add_val:
  "fp_of a = Fin x \<Longrightarrow> fp_of b = Fin y \<Longrightarrow> fits64 (x + y) \<Longrightarrow> fp_of (b64_add a b) = Fin (rnd (x + y))"
  by (simp add: b64_add_def fp_of_round)

lemma b64_neg_uminus [simp]: "b64_neg (b64_uminus a) \<longleftrightarrow> \<not> b64_neg a"
  unfolding b64_uminus_def by (rule mk_b64_fields(1)[OF b64_bits_range])

lemma b64_bits_uminus [simp]: "b64_bits (b64_uminus a) = b64_bits a"
  unfolding b64_uminus_def by (rule mk_b64_fields(2)[OF b64_bits_range])

lemma b64_neg_abs [simp]: "\<not> b64_neg (b64_abs a)"
  unfolding b64_abs_def using mk_b64_fields(1)[OF b64_bits_range] by simp

lemma b64_bits_abs [simp]: "b64_bits (b64_abs a) = b64_bits a"
  unfolding b64_abs_def by (rule mk_b64_fields(2)[OF b64_bits_range])

lemma fp_of_uminus: "fp_of (b64_uminus a)
    = (case fp_of a of Fin x \<Rightarrow> Fin (- x) | Inf s \<Rightarrow> Inf (\<not> s) | NaN \<Rightarrow> NaN)"
  by (simp add: fp_of_def Let_def)

lemma fp_of_abs: "fp_of (b64_abs a)
    = (case fp_of a of Fin x \<Rightarrow> Fin \<bar>x\<bar> | Inf s \<Rightarrow> Inf False | NaN \<Rightarrow> NaN)"
  using mag_nonneg[of "b64_bits a"] b64_bits_range[of a] by (simp add: fp_of_def Let_def)

lemma b64_sub_val:
  "fp_of a = Fin x \<Longrightarrow> fp_of b = Fin y \<Longrightarrow> fits64 (x - y) \<Longrightarrow> fp_of (b64_sub a b) = Fin (rnd (x - y))"
  using b64_add_val[of a x "b64_uminus b" "- y"] by (simp add: b64_sub_def fp_of_uminus)

lemma b64_mul_val:
  "fp_of a = Fin x \<Longrightarrow> fp_of b = Fin y \<Longrightarrow> fits64 (x * y) \<Longrightarrow> fp_of (b64_mul a b) = Fin (rnd (x * y))"
  by (simp add: b64_mul_def Let_def fp_of_round)

lemma b64_div_val:
  "fp_of a = Fin x \<Longrightarrow> fp_of b = Fin y \<Longrightarrow> y \<noteq> 0 \<Longrightarrow> fits64 (x / y)
     \<Longrightarrow> fp_of (b64_div a b) = Fin (rnd (x / y))"
  by (simp add: b64_div_def Let_def fp_of_round)

lemma b64_less_val: "fp_of a = Fin x \<Longrightarrow> fp_of b = Fin y \<Longrightarrow> b64_less a b \<longleftrightarrow> x < y"
  by (simp add: b64_less_def)

lemma b64_less_nan_left: "fp_of a = NaN \<Longrightarrow> \<not> b64_less a b"
  by (simp add: b64_less_def)

lemma b64_less_nan_right: "fp_of b = NaN \<Longrightarrow> \<not> b64_less a b"
  by (cases "fp_of a") (simp_all add: b64_less_def)

lemma b64_less_trans: "b64_less a b \<Longrightarrow> b64_less b c \<Longrightarrow> b64_less a c"
  unfolding b64_less_def
  by (cases "fp_of a"; cases "fp_of b"; cases "fp_of c") auto

lemma b64_less_irrefl [simp]: "\<not> b64_less a a"
  unfolding b64_less_def by (cases "fp_of a") auto

subsection \<open>What a client may rely on\<close>

text \<open>
  The contract of rounding: monotone, exact on the integers of at most 53 bits, and off by
  at most half a unit in the last place. The components that compute with seconds are
  proved from it alone; \<open>rnd\<close> provides it.
\<close>

locale rounding =
  fixes r :: "rat \<Rightarrow> rat"
  assumes r_mono: "x \<le> y \<Longrightarrow> r x \<le> r y"
    and r_int: "\<bar>m\<bar> \<le> 2 ^ 53 \<Longrightarrow> r (of_int m) = of_int m"
    and r_error: "\<bar>x\<bar> < 2 powi (k + 1) \<Longrightarrow> -1022 \<le> k \<Longrightarrow> \<bar>r x - x\<bar> \<le> 2 powi (k - 53)"
begin

lemma r_0: "r 0 = 0"
  using r_int[of 0] by simp

lemma r_between:
  assumes "of_int a \<le> x" "x \<le> of_int b" "\<bar>a\<bar> \<le> 2 ^ 53" "\<bar>b\<bar> \<le> 2 ^ 53"
  shows "of_int a \<le> r x" "r x \<le> of_int b"
  using r_mono[OF assms(1)] r_mono[OF assms(2)] r_int[OF assms(3)] r_int[OF assms(4)] by simp_all

end

interpretation b64: rounding rnd
  by unfold_locales (rule rnd_mono rnd_of_int rnd_error; assumption)+

end
