(* ===== verification/Timer.thy ===== *)
theory Timer
  imports Binary64
begin

text \<open>
  The clock arithmetic of \<open>src/realtime_utilities/realtime_utilities.cpp\<close>: the POSIX
  \<open>timespec\<close>, the periodic deadline of a real-time thread and the loop that advances it,
  differences and comparisons of times, and the synchronisation controller. Signed overflow
  and out-of-range conversions of a \<open>double\<close> are faults; a clock reading is an argument.
\<close>

subsection \<open>Data\<close>

record timespec =
  tv_sec :: int
  tv_nsec :: int

record period_info =
  next_period :: timespec
  period_ns :: int

subsection \<open>Conversions, differences, comparison\<close>

definition timer_to_s :: "timespec \<Rightarrow> b64" where
  "timer_to_s ts = b64_add (b64_of_int (tv_sec ts))
     (b64_div (b64_of_int (tv_nsec ts)) (b64_lit (10 ^ 9)))"

text \<open>\<open>1e9*tv_sec + tv_nsec\<close> is computed in \<open>double\<close> and cast to \<open>int64_t\<close>.\<close>

definition timer_to_ns :: "timespec \<Rightarrow> int res" where
  "timer_to_ns ts = b64_to_int in_s64
     (b64_add (b64_mul (b64_lit (10 ^ 9)) (b64_of_int (tv_sec ts))) (b64_of_int (tv_nsec ts)))"

text \<open>
  \<open>ret += 1e9*(..)\<close> on an \<open>int64_t\<close> adds in \<open>double\<close> and converts the sum back.
\<close>

definition timer_difference_ns :: "timespec \<Rightarrow> timespec \<Rightarrow> int res" where
  "timer_difference_ns a b =
     bind_res (sub64 (tv_nsec a) (tv_nsec b)) (\<lambda>ret.
     bind_res (sub64 (tv_sec a) (tv_sec b)) (\<lambda>ds.
       b64_to_int in_s64
         (b64_add (b64_of_int ret) (b64_mul (b64_lit (10 ^ 9)) (b64_of_int ds)))))"

definition timer_difference_s :: "timespec \<Rightarrow> timespec \<Rightarrow> b64 res" where
  "timer_difference_s a b =
     bind_res (sub64 (tv_nsec a) (tv_nsec b)) (\<lambda>dn.
     bind_res (sub64 (tv_sec a) (tv_sec b)) (\<lambda>ds.
       Inr (b64_add (b64_div (b64_of_int dn) (b64_lit (10 ^ 9))) (b64_of_int ds))))"

definition timer_greater_than :: "timespec \<Rightarrow> timespec \<Rightarrow> bool" where
  "timer_greater_than a b =
     (if tv_sec a > tv_sec b then True
      else if tv_sec a = tv_sec b then tv_nsec a > tv_nsec b
      else False)"

subsection \<open>Advancing a time\<close>

definition timer_add :: "timespec \<Rightarrow> int \<Rightarrow> timespec res" where
  "timer_add ts addtime =
     bind_res (mod64 addtime 1000000000) (\<lambda>nsec.
     bind_res (sub64 addtime nsec) (\<lambda>whole.
     bind_res (div64 whole 1000000000) (\<lambda>sec.
     bind_res (add64 (tv_sec ts) sec) (\<lambda>s.
     bind_res (add64 (tv_nsec ts) nsec) (\<lambda>n.
       if n > 1000000000 then
         bind_res (mod64 n 1000000000) (\<lambda>nsec'.
         bind_res (sub64 n nsec') (\<lambda>w'.
         bind_res (div64 w' 1000000000) (\<lambda>sec'.
         bind_res (add64 s sec') (\<lambda>s'.
           Inr \<lparr>tv_sec = s', tv_nsec = nsec'\<rparr>))))
       else Inr \<lparr>tv_sec = s, tv_nsec = n\<rparr>)))))"

definition timer_periodic_init :: "timespec \<Rightarrow> int \<Rightarrow> period_info" where
  "timer_periodic_init now period = \<lparr>next_period = now, period_ns = period\<rparr>"

text \<open>The inner loop of \<open>timer_inc_period\<close>: nanoseconds are carried into the seconds.\<close>

function carry_ns :: "timespec \<Rightarrow> timespec res" where
  "carry_ns ts =
     (if tv_nsec ts \<ge> 1000000000
      then bind_res (add64 (tv_sec ts) 1) (\<lambda>s.
             carry_ns \<lparr>tv_sec = s, tv_nsec = tv_nsec ts - 1000000000\<rparr>)
      else Inr ts)"
  by pat_completeness auto
termination
  by (relation "measure (\<lambda>ts. nat (tv_nsec ts))") auto

declare carry_ns.simps [simp del]

text \<open>One round of the outer loop, then the loop: it repeats while the deadline is late.\<close>

definition inc_step :: "int \<Rightarrow> period_info \<Rightarrow> (int \<times> period_info) res" where
  "inc_step missed p =
     bind_res (guard_res (missed + 1 < 2 ^ 31) Signed_Overflow) (\<lambda>_.
     bind_res (add64 (tv_nsec (next_period p)) (period_ns p)) (\<lambda>n.
     bind_res (carry_ns ((next_period p)\<lparr>tv_nsec := n\<rparr>)) (\<lambda>np.
       Inr (missed + 1, p\<lparr>next_period := np\<rparr>))))"

partial_function (option) inc_loop ::
  "b64 \<Rightarrow> int \<Rightarrow> period_info \<Rightarrow> (int \<times> period_info) res option" where
  "inc_loop now_s missed p =
     (case inc_step missed p of
        Inl e \<Rightarrow> Some (Inl e)
      | Inr mp \<Rightarrow>
          if b64_less (timer_to_s (next_period (snd mp))) now_s
          then inc_loop now_s (fst mp) (snd mp)
          else Some (Inr mp))"

text \<open>
  \<open>timer_inc_period(pinfo)\<close>, with the reading of the monotonic clock as an argument. The
  count is returned as \<open>uint32_t\<close>. \<open>None\<close>: the loop does not end.
\<close>

definition timer_inc_period ::
  "timespec \<Rightarrow> period_info \<Rightarrow> (32 word \<times> period_info) res option" where
  "timer_inc_period act p =
     map_option (\<lambda>r. bind_res r (\<lambda>(m, p'). Inr (word_of_int m, p')))
       (inc_loop (timer_to_s act) (-1) p)"

text \<open>
  The overload with an offset. \<open>uint64_t(d * 1e9) / pinfo->period_ns\<close> divides unsigned
  64-bit values; the conditional's value is returned as \<open>uint32_t\<close>.
\<close>

definition in_u64 :: "int \<Rightarrow> bool" where
  "in_u64 k \<longleftrightarrow> 0 \<le> k \<and> k < 2 ^ 64"

definition timer_inc_period_offset ::
  "period_info \<Rightarrow> int \<Rightarrow> (32 word \<times> period_info) res" where
  "timer_inc_period_offset p offset_ns =
     bind_res (add64 (period_ns p) offset_ns) (\<lambda>total.
     bind_res (timer_add (next_period p) total) (\<lambda>np.
     bind_res (timer_difference_s (next_period p) np) (\<lambda>d.
       if b64_less (b64_of_int 0) d then
         bind_res (b64_to_int in_u64 (b64_mul d (b64_lit (10 ^ 9)))) (\<lambda>k.
         bind_res (guard_res (period_ns p \<noteq> 0) Division_By_Zero) (\<lambda>_.
           Inr (word_of_int (k div (period_ns p mod 2 ^ 64)), p\<lparr>next_period := np\<rparr>)))
       else Inr (0, p\<lparr>next_period := np\<rparr>))))"

subsection \<open>Waiting\<close>

text \<open>Linux error numbers, as \<open>errno.h\<close> gives them.\<close>

abbreviation (input) EPERM :: int where "EPERM \<equiv> 1"
abbreviation (input) EINTR :: int where "EINTR \<equiv> 4"
abbreviation (input) EFAULT :: int where "EFAULT \<equiv> 14"
abbreviation (input) EINVAL :: int where "EINVAL \<equiv> 22"
abbreviation (input) ENOTSUP :: int where "ENOTSUP \<equiv> 95"

text \<open>
  The return value of \<open>clock_nanosleep\<close> is an argument; the result is the value returned
  and the text printed.
\<close>

definition timer_wait_rest_of_period :: "int \<Rightarrow> int \<times> string" where
  "timer_wait_rest_of_period err = (err,
     if err = EFAULT then ''request or remain specified an invalid address.\<newline>''
     else if err = EINTR then ''The sleep was interrupted by a signal handler; see signal(7)\<newline>''
     else if err = EINVAL then
       ''The value in the tv_nsec field was not in the range 0 to 999999999 or tv_sec was negative.\<newline>''
     else if err = ENOTSUP then
       ''clock_id was invalid.  (CLOCK_THREAD_CPUTIME_ID is not a supported''
     else '''')"

subsection \<open>The synchronisation controller\<close>

text \<open>
  \<open>timer_calc_sync_offset\<close> keeps a static integral; it takes the integral and returns the
  new one with the offset.
\<close>

definition timer_calc_sync_offset :: "int \<Rightarrow> int \<Rightarrow> int \<Rightarrow> (int \<times> int) res" where
  "timer_calc_sync_offset integral reftime cycletime =
     bind_res (sub64 reftime 50000) (\<lambda>t.
     bind_res (mod64 t cycletime) (\<lambda>delta0.
     bind_res (div64 cycletime 2) (\<lambda>half.
     bind_res (if delta0 > half then sub64 delta0 cycletime else Inr delta0) (\<lambda>delta.
     bind_res (if delta > 0 then add64 integral 1 else Inr integral) (\<lambda>i1.
     bind_res (if delta < 0 then sub64 i1 1 else Inr i1) (\<lambda>i2.
     bind_res (div64 delta 100) (\<lambda>prop.
     bind_res (div64 i2 20) (\<lambda>integ.
     bind_res (sub64 (- prop) integ) (\<lambda>off. Inr (off, i2))))))))))"

subsection \<open>Times as nanoseconds\<close>

text \<open>
  The abstract view: a time is its number of nanoseconds, and a normalised \<open>timespec\<close> is
  the only one of its number with the nanoseconds in range.
\<close>

definition total_ns :: "timespec \<Rightarrow> int" where
  "total_ns ts = tv_sec ts * 10 ^ 9 + tv_nsec ts"

definition normalised :: "timespec \<Rightarrow> bool" where
  "normalised ts \<longleftrightarrow> 0 \<le> tv_nsec ts \<and> tv_nsec ts < 10 ^ 9"

definition ts_of :: "int \<Rightarrow> timespec" where
  "ts_of n = \<lparr>tv_sec = n div 10 ^ 9, tv_nsec = n mod 10 ^ 9\<rparr>"

lemma normalised_ts_of [simp]: "normalised (ts_of n)"
  by (simp add: normalised_def ts_of_def)

lemma total_ts_of [simp]: "total_ns (ts_of n) = n"
  by (simp add: total_ns_def ts_of_def)

lemma total_record [simp]: "total_ns \<lparr>tv_sec = s, tv_nsec = n\<rparr> = s * 10 ^ 9 + n"
  by (simp add: total_ns_def)

lemma ts_of_total:
  assumes "normalised ts" shows "ts_of (total_ns ts) = ts"
proof -
  have "(tv_sec ts * 10 ^ 9 + tv_nsec ts) div 10 ^ 9 = tv_sec ts"
    using assms by (simp add: normalised_def div_pos_pos_trivial)
  moreover have "(tv_sec ts * 10 ^ 9 + tv_nsec ts) mod 10 ^ 9 = tv_nsec ts"
    using assms by (simp add: normalised_def mod_pos_pos_trivial)
  ultimately show ?thesis by (simp add: ts_of_def total_ns_def)
qed

lemma total_ns_less_iff:
  assumes "normalised a" "normalised b"
  shows "total_ns a < total_ns b \<longleftrightarrow> tv_sec a < tv_sec b \<or> tv_sec a = tv_sec b \<and> tv_nsec a < tv_nsec b"
  using assms by (auto simp: total_ns_def normalised_def)

lemma tv_ts_of: "tv_sec (ts_of n) = n div 10 ^ 9" "tv_nsec (ts_of n) = n mod 10 ^ 9"
  by (simp_all add: ts_of_def)

subsection \<open>Seconds in floating point\<close>

text \<open>The value \<open>timer_to_s\<close> computes, for any rounding.\<close>

definition secs_of :: "(rat \<Rightarrow> rat) \<Rightarrow> int \<Rightarrow> int \<Rightarrow> rat" where
  "secs_of r s n = r (of_int s + r (of_int n / 10 ^ 9))"

context rounding
begin

lemma frac_range:
  assumes "0 \<le> n" "n < 10 ^ 9"
  shows "0 \<le> r (of_int n / 10 ^ 9)" "r (of_int n / 10 ^ 9) \<le> 1"
proof -
  have "(of_int 0 :: rat) \<le> of_int n / 10 ^ 9" using assms(1) by simp
  moreover have "(of_int n / 10 ^ 9 :: rat) \<le> of_int 1"
    using assms(2) of_int_less_iff[where 'a = rat, of n "10 ^ 9"] by simp
  ultimately show "0 \<le> r (of_int n / 10 ^ 9)" "r (of_int n / 10 ^ 9) \<le> 1"
    using r_between[of 0 "of_int n / 10 ^ 9" 1] by simp_all
qed

lemma secs_range:
  assumes "0 \<le> n" "n < 10 ^ 9" "\<bar>s\<bar> < 2 ^ 53"
  shows "of_int s \<le> secs_of r s n" "secs_of r s n \<le> of_int (s + 1)"
  using frac_range[OF assms(1,2)] assms(3)
    r_between[of s "of_int s + r (of_int n / 10 ^ 9)" "s + 1"]
  by (auto simp: secs_of_def abs_if split: if_splits)

lemma secs_mono:
  assumes "0 \<le> n" "n < 10 ^ 9" "\<bar>s\<bar> < 2 ^ 53" "0 \<le> n'" "n' < 10 ^ 9" "\<bar>s'\<bar> < 2 ^ 53"
    and le: "s * 10 ^ 9 + n \<le> s' * 10 ^ 9 + n'"
  shows "secs_of r s n \<le> secs_of r s' n'"
proof (cases "s = s'")
  case True
  then have "(of_int n :: rat) / 10 ^ 9 \<le> of_int n' / 10 ^ 9" using le by (simp add: divide_right_mono)
  then show ?thesis unfolding secs_of_def True by (intro r_mono add_left_mono)
next
  case False
  have "s + 1 \<le> s'" using le assms False by (auto simp: algebra_simps)
  then have "(of_int (s + 1) :: rat) \<le> of_int s'" by (simp only: of_int_le_iff)
  then show ?thesis using secs_range[of n s] secs_range[of n' s'] assms by linarith
qed

lemma secs_error:
  assumes "0 \<le> n" "n < 10 ^ 9" "0 \<le> s" "of_int s + 1 < (2 powi (k + 1) :: rat)" "0 \<le> k"
  shows "\<bar>secs_of r s n - (of_int s + of_int n / 10 ^ 9)\<bar> \<le> 2 powi (k - 53) + 2 powi (- 54)"
proof -
  let ?f = "of_int n / 10 ^ 9 :: rat"
  have "\<bar>?f\<bar> < 1"
    using assms(1,2) of_int_less_iff[where 'a = rat, of n "10 ^ 9"] by simp
  then have "\<bar>r ?f - ?f\<bar> \<le> 2 powi (- 1 - 53)" by (intro r_error) simp_all
  then have f: "\<bar>r ?f - ?f\<bar> \<le> 2 powi (- 54)" by simp
  have "\<bar>of_int s + r ?f\<bar> < 2 powi (k + 1)"
    using frac_range[OF assms(1,2)] assms(3,4) by simp
  then have "\<bar>r (of_int s + r ?f) - (of_int s + r ?f)\<bar> \<le> 2 powi (k - 53)"
    using assms(5) by (intro r_error) simp_all
  then show ?thesis using f unfolding secs_of_def by linarith
qed

text \<open>Below \<open>2 ^ 23\<close> seconds (97 days) the rounded seconds tell any two nanoseconds apart.\<close>

lemma secs_strict:
  assumes "0 \<le> n" "n < 10 ^ 9" "0 \<le> s" "s < 2 ^ 23 - 1"
    and "0 \<le> n'" "n' < 10 ^ 9" "0 \<le> s'" "s' < 2 ^ 23 - 1"
    and less: "s * 10 ^ 9 + n < s' * 10 ^ 9 + n'"
  shows "secs_of r s n < secs_of r s' n'"
proof -
  have b: "of_int t + 1 < (2 powi (22 + 1) :: rat)" if "t < 2 ^ 23 - 1" for t :: int
    using that of_int_less_iff[where 'a = rat, of "t + 1" "2 ^ 23"] by simp
  have e: "\<bar>secs_of r s n - (of_int s + of_int n / 10 ^ 9)\<bar> \<le> 2 powi (- 31) + 2 powi (- 54)"
    using secs_error[OF assms(1-3) b] assms(4) by simp
  have e': "\<bar>secs_of r s' n' - (of_int s' + of_int n' / 10 ^ 9)\<bar> \<le> 2 powi (- 31) + 2 powi (- 54)"
    using secs_error[OF assms(5-7) b] assms(8) by simp
  have "(of_int (s * 10 ^ 9 + n + 1) :: rat) \<le> of_int (s' * 10 ^ 9 + n')"
    using less by (simp only: of_int_le_iff)
  then have d: "of_int s + of_int n / 10 ^ 9 + 1 / 10 ^ 9 \<le> (of_int s' + of_int n' / 10 ^ 9 :: rat)"
    by (simp add: field_simps)
  have "2 * (2 powi (- 31) + 2 powi (- 54)) < (1 / 10 ^ 9 :: rat)"
    by (simp add: power_int_minus)
  moreover have "x < y" if "\<bar>x - a\<bar> \<le> e" "\<bar>y - b\<bar> \<le> e" "a + c \<le> b" "2 * e < c" for x y a b c e :: rat
    using that by linarith
  ultimately show ?thesis using e e' d by blast
qed

lemma secs_less_iff:
  assumes "0 \<le> n" "n < 10 ^ 9" "0 \<le> s" "s < 2 ^ 23 - 1"
    and "0 \<le> n'" "n' < 10 ^ 9" "0 \<le> s'" "s' < 2 ^ 23 - 1"
  shows "secs_of r s n < secs_of r s' n' \<longleftrightarrow> s * 10 ^ 9 + n < s' * 10 ^ 9 + n'"
  using secs_strict[OF assms] secs_mono[of n' s' n s] assms by (auto simp: not_less[symmetric])

end

subsection \<open>What the conversions compute\<close>

lemma fits64_small: "\<bar>x\<bar> \<le> 2 ^ 100 \<Longrightarrow> fits64 x"
  using two_powi_le[of 100 1023] by (intro fits64_bound) simp

lemma b64_lit_int: "\<bar>k\<bar> \<le> 2 ^ 53 \<Longrightarrow> fp_of (b64_lit (of_int k)) = Fin (of_int k)"
  using b64_of_int_val by (simp add: b64_of_int_def b64_lit_def)

lemma b64_lit_1e9 [simp]: "fp_of (b64_lit 1000000000) = Fin 1000000000"
  using b64_lit_int[of 1000000000] by simp

lemma of_int_abs_le: "\<bar>k\<bar> \<le> c \<Longrightarrow> \<bar>of_int k :: rat\<bar> \<le> of_int c"
  by (simp only: of_int_abs[symmetric] of_int_le_iff)

lemma timer_to_s_val:
  assumes "normalised ts" "\<bar>tv_sec ts\<bar> < 2 ^ 53"
  shows "fp_of (timer_to_s ts) = Fin (secs_of rnd (tv_sec ts) (tv_nsec ts))"
proof -
  let ?n = "of_int (tv_nsec ts) :: rat" and ?s = "of_int (tv_sec ts) :: rat"
  have n: "0 \<le> tv_nsec ts" "tv_nsec ts < 10 ^ 9" using assms(1) by (simp_all add: normalised_def)
  have s: "\<bar>?s\<bar> \<le> 2 ^ 53" using of_int_abs_le[of "tv_sec ts" "2 ^ 53"] assms(2) by simp
  have q: "\<bar>?n / 10 ^ 9\<bar> \<le> 1"
    using of_int_abs_le[of "tv_nsec ts" "10 ^ 9"] n by simp
  have "fp_of (b64_div (b64_of_int (tv_nsec ts)) (b64_lit (10 ^ 9))) = Fin (rnd (?n / 10 ^ 9))"
    by (rule b64_div_val[OF b64_of_int_val]) (use n q in \<open>auto intro!: fits64_small\<close>)
  moreover have "fp_of (b64_of_int (tv_sec ts)) = Fin ?s"
    by (rule b64_of_int_val) (use assms(2) in simp)
  ultimately show ?thesis
    unfolding timer_to_s_def secs_of_def
    by (intro b64_add_val fits64_small) (use s b64.frac_range[OF n] in auto)
qed

text \<open>A deadline is late when its seconds compare below the clock's.\<close>

definition late :: "timespec \<Rightarrow> timespec \<Rightarrow> bool" where
  "late act ts \<longleftrightarrow> b64_less (timer_to_s ts) (timer_to_s act)"

lemma late_iff_secs:
  assumes "normalised ts" "\<bar>tv_sec ts\<bar> < 2 ^ 53" "normalised act" "\<bar>tv_sec act\<bar> < 2 ^ 53"
  shows "late act ts \<longleftrightarrow>
    secs_of rnd (tv_sec ts) (tv_nsec ts) < secs_of rnd (tv_sec act) (tv_nsec act)"
  unfolding late_def by (rule b64_less_val[OF timer_to_s_val timer_to_s_val]) (use assms in auto)

lemma late_imp_before:
  assumes "normalised ts" "\<bar>tv_sec ts\<bar> < 2 ^ 53" "normalised act" "\<bar>tv_sec act\<bar> < 2 ^ 53"
    and "late act ts"
  shows "total_ns ts < total_ns act"
  using late_iff_secs[OF assms(1-4)] assms
    b64.secs_mono[of "tv_nsec act" "tv_sec act" "tv_nsec ts" "tv_sec ts"]
  by (auto simp: total_ns_def normalised_def not_less[symmetric])

lemma late_exact:
  assumes "normalised ts" "0 \<le> tv_sec ts" "tv_sec ts < 2 ^ 23 - 1"
    and "normalised act" "0 \<le> tv_sec act" "tv_sec act < 2 ^ 23 - 1"
  shows "late act ts \<longleftrightarrow> total_ns ts < total_ns act"
  using late_iff_secs[of ts act] assms
    b64.secs_less_iff[of "tv_nsec ts" "tv_sec ts" "tv_nsec act" "tv_sec act"]
  by (simp add: total_ns_def normalised_def)

subsection \<open>The deadline loop\<close>

lemma carry_ns_total:
  assumes "0 \<le> tv_nsec ts" "in_s64 (tv_sec ts)" "in_s64 (tv_sec ts + tv_nsec ts div 10 ^ 9)"
  shows "carry_ns ts = Inr (ts_of (total_ns ts))"
  using assms
proof (induction ts rule: carry_ns.induct)
  case (1 ts)
  show ?case
  proof (cases "tv_nsec ts \<ge> 1000000000")
    case False
    then have "normalised ts" using 1(2) by (simp add: normalised_def)
    then show ?thesis using False by (subst carry_ns.simps) (simp add: ts_of_total)
  next
    case True
    let ?ts = "\<lparr>tv_sec = tv_sec ts + 1, tv_nsec = tv_nsec ts - 1000000000\<rparr>"
    have d: "tv_nsec ts div 10 ^ 9 = (tv_nsec ts - 1000000000) div 10 ^ 9 + 1"
      using div_add_self2[of "10 ^ 9" "tv_nsec ts - 10 ^ 9"] by simp
    have d1: "1 \<le> tv_nsec ts div 10 ^ 9" using True d pos_imp_zdiv_nonneg_iff[of "10 ^ 9"] by simp
    have s1: "in_s64 (tv_sec ts + 1)"
      using in_s64_between[OF 1(3,4)] d1 by simp
    have "carry_ns ?ts = Inr (ts_of (total_ns ?ts))"
      by (rule 1(1)[OF True]) (use True s1 1(4) d in \<open>auto simp: algebra_simps\<close>)
    moreover have "total_ns ?ts = total_ns ts" by (simp add: total_ns_def algebra_simps)
    ultimately show ?thesis using True s1 by (subst carry_ns.simps) simp
  qed
qed

text \<open>One round moves the deadline by exactly one period and leaves it normalised.\<close>

lemma inc_step_total:
  assumes "normalised (next_period p)" "0 \<le> period_ns p" "period_ns p \<le> 2 ^ 62"
    and "\<bar>tv_sec (next_period p)\<bar> \<le> 2 ^ 60" "missed + 1 < 2 ^ 31"
  shows "inc_step missed p =
    Inr (missed + 1, p\<lparr>next_period := ts_of (total_ns (next_period p) + period_ns p)\<rparr>)"
proof -
  let ?t = "next_period p"
  let ?n = "tv_nsec ?t + period_ns p"
  have n: "0 \<le> ?n" "?n < 2 ^ 63" using assms(1-3) by (auto simp: normalised_def)
  have d: "0 \<le> ?n div 10 ^ 9" using n by (simp add: pos_imp_zdiv_nonneg_iff)
  have le: "?n div 10 ^ 9 < 2 ^ 62"
    using n(2) zdiv_mono1[of ?n "2 ^ 63" "10 ^ 9"] by simp
  have "carry_ns (?t\<lparr>tv_nsec := ?n\<rparr>) = Inr (ts_of (total_ns (?t\<lparr>tv_nsec := ?n\<rparr>)))"
    by (rule carry_ns_total) (use n d le assms(4) in \<open>auto simp: in_s64_def\<close>)
  moreover have "total_ns (?t\<lparr>tv_nsec := ?n\<rparr>) = total_ns ?t + period_ns p"
    by (simp add: total_ns_def)
  moreover have "in_s64 ?n" using n by simp
  ultimately show ?thesis using assms(5) by (simp add: inc_step_def)
qed

lemma inc_step_overflow: "\<not> missed + 1 < 2 ^ 31 \<Longrightarrow> inc_step missed p = Inl Signed_Overflow"
  by (simp add: inc_step_def)

text \<open>The loop ends; its \<open>int\<close> counter overflows when it would have to skip \<open>2 ^ 31\<close> deadlines.\<close>

lemma inc_loop_until:
  assumes "normalised (next_period p)" "0 \<le> period_ns p" "period_ns p \<le> 2 ^ 62"
    and "\<And>j. 0 \<le> j \<Longrightarrow> j \<le> int d \<Longrightarrow>
           \<bar>(total_ns (next_period p) + j * period_ns p) div 10 ^ 9\<bar> \<le> 2 ^ 60"
    and "\<And>j. 1 \<le> j \<Longrightarrow> j \<le> int d \<Longrightarrow>
           late act (ts_of (total_ns (next_period p) + j * period_ns p))"
    and "\<not> late act (ts_of (total_ns (next_period p) + (int d + 1) * period_ns p))"
  shows "inc_loop (timer_to_s act) missed p = Some
    (if missed + 1 + int d < 2 ^ 31
     then Inr (missed + 1 + int d,
       p\<lparr>next_period := ts_of (total_ns (next_period p) + (int d + 1) * period_ns p)\<rparr>)
     else Inl Signed_Overflow)"
  using assms
proof (induction d arbitrary: missed p)
  case (0 missed p)
  show ?case
  proof (cases "missed + 1 < 2 ^ 31")
    case False
    then show ?thesis using inc_step_overflow[OF False] by (subst inc_loop.simps) simp
  next
    case True
  have "\<bar>tv_sec (next_period p)\<bar> \<le> 2 ^ 60"
    using 0(4)[of 0] ts_of_total[OF 0(1)] by (metis add.right_neutral int_ops(1) mult_zero_left order_refl tv_ts_of(1))
    then have "inc_step missed p =
        Inr (missed + 1, p\<lparr>next_period := ts_of (total_ns (next_period p) + period_ns p)\<rparr>)"
      by (intro inc_step_total) (use 0 True in auto)
    then show ?thesis using 0(6) True by (subst inc_loop.simps) (simp add: late_def)
  qed
next
  case (Suc d missed p)
  let ?T = "total_ns (next_period p)" and ?P = "period_ns p"
  let ?p = "p\<lparr>next_period := ts_of (?T + ?P)\<rparr>"
  show ?case
  proof (cases "missed + 1 < 2 ^ 31")
    case False
    then show ?thesis using inc_step_overflow[OF False] by (subst inc_loop.simps) simp
  next
    case True
    have "\<bar>tv_sec (next_period p)\<bar> \<le> 2 ^ 60"
      using Suc.prems(4)[of 0] ts_of_total[OF Suc.prems(1)]
      by (metis add.right_neutral mult_zero_left of_nat_0_le_iff order_refl tv_ts_of(1))
    then have step: "inc_step missed p = Inr (missed + 1, ?p)"
      by (intro inc_step_total) (use Suc.prems True in auto)
    have late1: "late act (ts_of (?T + ?P))" using Suc.prems(5)[of 1] by simp
    have shift: "?T + ?P + j * ?P = ?T + (j + 1) * ?P" for j by (simp add: algebra_simps)
    have shift': "?T + ?P + (int d + 1) * ?P = ?T + (int (Suc d) + 1) * ?P" by (simp add: algebra_simps)
    have tp: "total_ns (next_period ?p) = ?T + ?P" "period_ns ?p = ?P" by simp_all
    have "inc_loop (timer_to_s act) (missed + 1) ?p = Some (if missed + 1 + 1 + int d < 2 ^ 31
       then Inr (missed + 1 + 1 + int d,
        ?p\<lparr>next_period := ts_of (total_ns (next_period ?p) + (int d + 1) * period_ns ?p)\<rparr>)
       else Inl Signed_Overflow)"
    proof (rule Suc.IH)
      show "\<bar>(total_ns (next_period ?p) + j * period_ns ?p) div 10 ^ 9\<bar> \<le> 2 ^ 60"
        if "0 \<le> j" "j \<le> int d" for j
        using Suc.prems(4)[of "j + 1"] that by (simp add: shift)
      show "late act (ts_of (total_ns (next_period ?p) + j * period_ns ?p))"
        if "1 \<le> j" "j \<le> int d" for j
        using Suc.prems(5)[of "j + 1"] that by (simp add: shift)
      show "\<not> late act (ts_of (total_ns (next_period ?p) + (int d + 1) * period_ns ?p))"
        unfolding tp shift' by (rule Suc.prems(6))
    qed (use Suc.prems in auto)
    then have "inc_loop (timer_to_s act) (missed + 1) ?p = Some (if missed + 1 + int (Suc d) < 2 ^ 31
        then Inr (missed + 1 + int (Suc d), p\<lparr>next_period := ts_of (?T + (int (Suc d) + 1) * ?P)\<rparr>)
        else Inl Signed_Overflow)"
      unfolding tp shift' by simp
    then show ?thesis using step late1 by (subst inc_loop.simps) (simp add: late_def)
  qed
qed

text \<open>
  The number of periods the loop skips: the least \<open>d\<close> whose next deadline is not late. It is
  found before the deadlines pass the clock by more than one period.
\<close>

lemma late_deadlines_end:
  assumes "normalised (next_period p)" "0 \<le> tv_sec (next_period p)" "tv_sec (next_period p) \<le> 2 ^ 52"
    and "normalised act" "0 \<le> tv_sec act" "tv_sec act \<le> 2 ^ 52"
    and "0 < period_ns p" "period_ns p \<le> 2 ^ 62"
  shows "\<exists>d. int d \<le> max 0 ((total_ns act - total_ns (next_period p)) div period_ns p) \<and>
      (\<forall>j. 1 \<le> j \<and> j \<le> int d \<longrightarrow> late act (ts_of (total_ns (next_period p) + j * period_ns p))) \<and>
      \<not> late act (ts_of (total_ns (next_period p) + (int d + 1) * period_ns p))"
proof -
  let ?T = "total_ns (next_period p)" and ?P = "period_ns p" and ?A = "total_ns act"
  define Q where "Q d \<longleftrightarrow> \<not> late act (ts_of (?T + (int d + 1) * ?P))" for d
  define d0 where "d0 = nat ((?A - ?T) div ?P)"
  have TA: "0 \<le> ?T" "?T < (2 ^ 52 + 1) * 10 ^ 9" "?A < (2 ^ 52 + 1) * 10 ^ 9"
    using assms by (auto simp: total_ns_def normalised_def)
  have lo: "?A \<le> ?T + (int d0 + 1) * ?P"
  proof -
    have "?A - ?T < ((?A - ?T) div ?P + 1) * ?P"
      by (rule less_div_add1_mult[OF assms(7)])
    also have "\<dots> \<le> (int d0 + 1) * ?P" using assms(7) by (intro mult_right_mono) (auto simp: d0_def)
    finally show ?thesis by simp
  qed
  have up: "?T + int d0 * ?P \<le> max ?T ?A"
  proof (cases "?T \<le> ?A")
    case True
    then have "int d0 = (?A - ?T) div ?P" using assms(7) by (simp add: d0_def pos_imp_zdiv_nonneg_iff)
    then have "int d0 * ?P \<le> ?A - ?T" using assms(7) using div_mult_le_self[of ?P "?A - ?T"] by simp
    then show ?thesis by simp
  next
    case False
    then have "d0 = 0" using div_neg_pos_less0[of "?A - ?T" ?P] assms(7) by (simp add: d0_def)
    then show ?thesis by simp
  qed
  let ?n = "?T + (int d0 + 1) * ?P"
  have nb: "0 \<le> ?n" "?n < (2 ^ 52 + 1) * 10 ^ 9 + 2 ^ 62"
    using up TA assms(7,8) by (auto simp: algebra_simps max_def split: if_splits)
  have "?n div 10 ^ 9 < 2 ^ 53"
    using zdiv_mono1[of ?n "(2 ^ 52 + 1) * 10 ^ 9 + 2 ^ 62" "10 ^ 9"] nb(2) by simp
  then have "\<bar>tv_sec (ts_of ?n)\<bar> < 2 ^ 53" using nb(1) by (simp add: tv_ts_of pos_imp_zdiv_nonneg_iff)
  then have "Q d0"
    using late_imp_before[of "ts_of ?n" act] assms(4-6) lo by (auto simp: Q_def)
  then obtain d where d: "Q d" "\<And>e. e < d \<Longrightarrow> \<not> Q e" "d \<le> d0"
    by (metis Least_le LeastI not_less_Least)
  have "late act (ts_of (?T + j * ?P))" if "1 \<le> j" "j \<le> int d" for j
    using d(2)[of "nat (j - 1)"] that by (simp add: Q_def)
  then show ?thesis using d(1,3) by (intro exI[of _ d]) (auto simp: Q_def d0_def)
qed

lemma inc_loop_result:
  assumes "normalised (next_period p)" "0 \<le> tv_sec (next_period p)" "tv_sec (next_period p) \<le> 2 ^ 52"
    and "normalised act" "0 \<le> tv_sec act" "tv_sec act \<le> 2 ^ 52"
    and "0 < period_ns p" "period_ns p \<le> 2 ^ 62"
  obtains m where "0 \<le> m"
    "inc_loop (timer_to_s act) (- 1) p = Some (if m < 2 ^ 31 then Inr (m,
      p\<lparr>next_period := ts_of (total_ns (next_period p) + (m + 1) * period_ns p)\<rparr>)
      else Inl Signed_Overflow)"
    "\<And>j. 1 \<le> j \<Longrightarrow> j \<le> m \<Longrightarrow> late act (ts_of (total_ns (next_period p) + j * period_ns p))"
    "\<not> late act (ts_of (total_ns (next_period p) + (m + 1) * period_ns p))"
    "total_ns (next_period p) + m * period_ns p \<le> max (total_ns (next_period p)) (total_ns act)"
proof -
  let ?T = "total_ns (next_period p)" and ?P = "period_ns p" and ?A = "total_ns act"
  obtain d where d: "int d \<le> max 0 ((?A - ?T) div ?P)"
    "\<And>j. 1 \<le> j \<Longrightarrow> j \<le> int d \<Longrightarrow> late act (ts_of (?T + j * ?P))"
    "\<not> late act (ts_of (?T + (int d + 1) * ?P))"
    using late_deadlines_end[OF assms(1-8)] by blast
  have TA: "0 \<le> ?T" "?T < (2 ^ 52 + 1) * 10 ^ 9" "?A < (2 ^ 52 + 1) * 10 ^ 9"
    using assms by (auto simp: total_ns_def normalised_def)
  have upto: "?T + j * ?P \<le> max ?T ?A" if "0 \<le> j" "j \<le> int d" for j
  proof -
    have "j * ?P \<le> max 0 ((?A - ?T) div ?P) * ?P" using that d(1) assms(7) by (intro mult_right_mono) auto
    also have "\<dots> \<le> max 0 (?A - ?T)" using div_mult_le_self[OF assms(7), of "?A - ?T"] by (auto simp: max_def)
    finally show ?thesis by linarith
  qed
  have bound: "\<bar>(?T + j * ?P) div 10 ^ 9\<bar> \<le> 2 ^ 60" if "0 \<le> j" "j \<le> int d" for j
  proof -
    have "?T + j * ?P < (2 ^ 52 + 1) * 10 ^ 9" "0 \<le> ?T + j * ?P"
      using upto[OF that] TA that assms(7) by auto
    then show ?thesis
      using zdiv_mono1[of "?T + j * ?P" "(2 ^ 52 + 1) * 10 ^ 9" "10 ^ 9"]
      by (simp add: pos_imp_zdiv_nonneg_iff)
  qed
  have "inc_loop (timer_to_s act) (- 1) p = Some (if - 1 + 1 + int d < 2 ^ 31 then Inr (- 1 + 1 + int d,
      p\<lparr>next_period := ts_of (?T + (int d + 1) * ?P)\<rparr>) else Inl Signed_Overflow)"
    by (rule inc_loop_until) (use assms bound d in auto)
  then show ?thesis using d(2,3) upto[of "int d"]
    by (intro that[of "int d"]) simp_all
qed

lemma inc_period_result:
  assumes "normalised (next_period p)" "0 \<le> tv_sec (next_period p)" "tv_sec (next_period p) \<le> 2 ^ 52"
    and "normalised act" "0 \<le> tv_sec act" "tv_sec act \<le> 2 ^ 52"
    and "0 < period_ns p" "period_ns p \<le> 2 ^ 62"
  obtains m where "0 \<le> m"
    "timer_inc_period act p = Some (if m < 2 ^ 31 then Inr (word_of_int m,
      p\<lparr>next_period := ts_of (total_ns (next_period p) + (m + 1) * period_ns p)\<rparr>)
      else Inl Signed_Overflow)"
    "\<And>j. 1 \<le> j \<Longrightarrow> j \<le> m \<Longrightarrow> late act (ts_of (total_ns (next_period p) + j * period_ns p))"
    "\<not> late act (ts_of (total_ns (next_period p) + (m + 1) * period_ns p))"
    "total_ns (next_period p) + m * period_ns p \<le> max (total_ns (next_period p)) (total_ns act)"
proof (rule inc_loop_result[OF assms])
  fix m
  let ?p = "p\<lparr>next_period := ts_of (total_ns (next_period p) + (m + 1) * period_ns p)\<rparr>"
  assume m: "0 \<le> m" "inc_loop (timer_to_s act) (- 1) p = Some (if m < 2 ^ 31 then Inr (m, ?p) else Inl Signed_Overflow)"
    "\<And>j. 1 \<le> j \<Longrightarrow> j \<le> m \<Longrightarrow> late act (ts_of (total_ns (next_period p) + j * period_ns p))"
    "\<not> late act (ts_of (total_ns (next_period p) + (m + 1) * period_ns p))"
    "total_ns (next_period p) + m * period_ns p \<le> max (total_ns (next_period p)) (total_ns act)"
  show thesis by (rule that[OF m(1) _ m(3-5)]) (simp_all add: timer_inc_period_def m(2))
qed

text \<open>The count of missed periods, once lateness is decided exactly.\<close>

lemma missed_count:
  assumes "0 < (P::int)" "0 \<le> m" "m \<noteq> 0 \<Longrightarrow> T + m * P < A" "A \<le> T + (m + 1) * P"
  shows "m = max 0 ((A - T - 1) div P)"
proof (cases "m = 0")
  case True
  then have "A - T - 1 < P" using assms(4) by simp
  then have "(A - T - 1) div P \<le> 0"
    using div_neg_pos_less0[of "A - T - 1" P] assms(1) by (cases "A - T - 1 < 0") auto
  then show ?thesis using True by simp
next
  case False
  have "(A - T - 1) div P = m"
    by (rule int_div_pos_eq[where r = "A - T - 1 - m * P"])
       (use assms False in \<open>auto simp: algebra_simps\<close>)
  then show ?thesis using assms(2) by simp
qed

text \<open>In the first 97 days the comparison in doubles is exact.\<close>

lemma inc_period_exact:
  assumes "normalised (next_period p)" "0 \<le> tv_sec (next_period p)" "tv_sec (next_period p) < 2 ^ 23 - 2"
    and "normalised act" "0 \<le> tv_sec act" "tv_sec act < 2 ^ 23 - 2"
    and "0 < period_ns p" "period_ns p \<le> 10 ^ 9"
  shows "timer_inc_period act p =
    (let m = max 0 ((total_ns act - total_ns (next_period p) - 1) div period_ns p) in
     Some (if m < 2 ^ 31 then Inr (word_of_int m,
       p\<lparr>next_period := ts_of (total_ns (next_period p) + (m + 1) * period_ns p)\<rparr>)
       else Inl Signed_Overflow))"
proof -
  let ?T = "total_ns (next_period p)" and ?P = "period_ns p" and ?A = "total_ns act"
  have "tv_sec (next_period p) \<le> 2 ^ 52" "tv_sec act \<le> 2 ^ 52" "?P \<le> 2 ^ 62" using assms by auto
  then obtain m where m: "0 \<le> m" "timer_inc_period act p = Some (if m < 2 ^ 31 then Inr (word_of_int m,
      p\<lparr>next_period := ts_of (?T + (m + 1) * ?P)\<rparr>) else Inl Signed_Overflow)"
    "\<And>j. 1 \<le> j \<Longrightarrow> j \<le> m \<Longrightarrow> late act (ts_of (?T + j * ?P))"
    "\<not> late act (ts_of (?T + (m + 1) * ?P))" "?T + m * ?P \<le> max ?T ?A"
    using inc_period_result[of p act] assms by metis
  have T: "0 \<le> ?T" "?T < (2 ^ 23 - 2) * 10 ^ 9" "?A < (2 ^ 23 - 2) * 10 ^ 9"
    using assms by (auto simp: total_ns_def normalised_def)
  have ex: "late act (ts_of n) \<longleftrightarrow> n < ?A" if "0 \<le> n" "n < (2 ^ 23 - 1) * 10 ^ 9" for n
  proof -
    have "0 \<le> n div 10 ^ 9" "n div 10 ^ 9 < 2 ^ 23 - 1"
      using that zdiv_mono1[of n "(2 ^ 23 - 1) * 10 ^ 9 - 1" "10 ^ 9"]
      by (simp_all add: pos_imp_zdiv_nonneg_iff)
    then show ?thesis using late_exact[of "ts_of n" act] assms(4-6) by (simp add: tv_ts_of)
  qed
  have "?T + m * ?P < (2 ^ 23 - 2) * 10 ^ 9" "0 \<le> m * ?P" using m(1,5) T assms(7) by auto
  then have "?A \<le> ?T + (m + 1) * ?P" "m \<noteq> 0 \<Longrightarrow> ?T + m * ?P < ?A"
    using ex[of "?T + (m + 1) * ?P"] ex[of "?T + m * ?P"] m(1,3,4) T(1) assms(7,8)
    by (auto simp: algebra_simps)
  then have "m = max 0 ((?A - ?T - 1) div ?P)" by (intro missed_count[OF assms(7) m(1)])
  then show ?thesis using m(2) by (simp only: Let_def)
qed

subsection \<open>Properties of the deadline\<close>

text \<open>C1: For a normalised deadline and clock with seconds from 0 to 2^52 and a period from 1 to
  2^62 ns, the loop of timer_inc_period always ends. Let m + 1 be the number of periods to
  the first following deadline that does not compare late in doubles (the m before it all
  do). When m is below 2^31 the function returns m and moves the deadline forward by exactly
  m + 1 periods; when it is not, the int counter of the loop overflows, a fault.\<close>

theorem timer_inc_period_first_deadline:
  assumes "normalised (next_period p)" "0 \<le> tv_sec (next_period p)" "tv_sec (next_period p) \<le> 2 ^ 52"
    and "normalised act" "0 \<le> tv_sec act" "tv_sec act \<le> 2 ^ 52"
    and "0 < period_ns p" "period_ns p \<le> 2 ^ 62"
  shows "\<exists>m. 0 \<le> m \<and>
    timer_inc_period act p = Some (if m < 2 ^ 31 then Inr (word_of_int m,
      p\<lparr>next_period := ts_of (total_ns (next_period p) + (m + 1) * period_ns p)\<rparr>)
      else Inl Signed_Overflow) \<and>
    (\<forall>j. 1 \<le> j \<and> j \<le> m \<longrightarrow> late act (ts_of (total_ns (next_period p) + j * period_ns p))) \<and>
    \<not> late act (ts_of (total_ns (next_period p) + (m + 1) * period_ns p))"
proof (rule inc_loop_result[OF assms])
  fix m
  let ?p = "p\<lparr>next_period := ts_of (total_ns (next_period p) + (m + 1) * period_ns p)\<rparr>"
  assume m: "0 \<le> m" "inc_loop (timer_to_s act) (- 1) p = Some (if m < 2 ^ 31 then Inr (m, ?p) else Inl Signed_Overflow)"
    "\<And>j. 1 \<le> j \<Longrightarrow> j \<le> m \<Longrightarrow> late act (ts_of (total_ns (next_period p) + j * period_ns p))"
    "\<not> late act (ts_of (total_ns (next_period p) + (m + 1) * period_ns p))"
  have "timer_inc_period act p = Some (if m < 2 ^ 31 then Inr (word_of_int m, ?p) else Inl Signed_Overflow)"
    by (simp add: timer_inc_period_def m(2))
  then show ?thesis using m(1,3,4) by blast
qed

theorem timer_inc_period_first_deadline_witness:
  "\<exists>m. 0 \<le> m \<and>
    timer_inc_period \<lparr>tv_sec = 10, tv_nsec = 5\<rparr>
      \<lparr>next_period = \<lparr>tv_sec = 9, tv_nsec = 0\<rparr>, period_ns = 300000000\<rparr>
      = Some (if m < 2 ^ 31 then Inr (word_of_int m, \<lparr>next_period = ts_of (9000000000 + (m + 1) * 300000000),
          period_ns = 300000000\<rparr>) else Inl Signed_Overflow)"
  using timer_inc_period_first_deadline
    [of "\<lparr>next_period = \<lparr>tv_sec = 9, tv_nsec = 0\<rparr>, period_ns = 300000000\<rparr>" "\<lparr>tv_sec = 10, tv_nsec = 5\<rparr>"]
  by (auto simp: normalised_def)

text \<open>C15: While the normalised deadline and clock lie in the first 97 days (seconds from 0 to
  below 2^23 - 2) and the period is from 1 ns to one second, the comparison in doubles is
  exact: with m = max(0, (now - deadline - 1 ns) div period), the number of whole missed
  periods, timer_inc_period returns m and stores the deadline m + 1 periods later, the first
  one not before now, when m is below 2^31 (a 1 ms period may be 24 days late), and its int
  counter overflows, a fault, when it is not.\<close>

theorem timer_inc_period_exact:
  assumes "normalised (next_period p)" "0 \<le> tv_sec (next_period p)" "tv_sec (next_period p) < 2 ^ 23 - 2"
    and "normalised act" "0 \<le> tv_sec act" "tv_sec act < 2 ^ 23 - 2"
    and "0 < period_ns p" "period_ns p \<le> 10 ^ 9"
  shows "timer_inc_period act p =
    (let m = max 0 ((total_ns act - total_ns (next_period p) - 1) div period_ns p) in
     Some (if m < 2 ^ 31 then Inr (word_of_int m,
       p\<lparr>next_period := ts_of (total_ns (next_period p) + (m + 1) * period_ns p)\<rparr>)
       else Inl Signed_Overflow))"
  by (rule inc_period_exact[OF assms])

theorem timer_inc_period_exact_witness:
  "timer_inc_period \<lparr>tv_sec = 10, tv_nsec = 5\<rparr>
      \<lparr>next_period = \<lparr>tv_sec = 9, tv_nsec = 0\<rparr>, period_ns = 300000000\<rparr>
    = Some (Inr (3, \<lparr>next_period = \<lparr>tv_sec = 10, tv_nsec = 200000000\<rparr>, period_ns = 300000000\<rparr>))"
  using timer_inc_period_exact
    [of "\<lparr>next_period = \<lparr>tv_sec = 9, tv_nsec = 0\<rparr>, period_ns = 300000000\<rparr>" "\<lparr>tv_sec = 10, tv_nsec = 5\<rparr>"]
  by (simp add: normalised_def total_ns_def ts_of_def)

text \<open>Beyond that uptime the comparison in doubles loses nanoseconds: with a clock at 2^24 s and a
  period of 1 ms the loop reports no missed deadline and stores a deadline that has already
  passed.\<close>

theorem timer_inc_period_late_accepted:
  "\<exists>act p p'. normalised act \<and> normalised (next_period p) \<and> period_ns p = 1000000 \<and>
     timer_inc_period act p = Some (Inr (0, p')) \<and> total_ns (next_period p') < total_ns act"
proof -
  let ?act = "\<lparr>tv_sec = 16777216, tv_nsec = 1\<rparr>"
  let ?p = "\<lparr>next_period = \<lparr>tv_sec = 16777215, tv_nsec = 999000000\<rparr>, period_ns = 1000000\<rparr>"
  have "rnd (16777216 + rnd (1 / 10 ^ 9)) = 16777216" by code_simp
  then have "\<not> secs_of rnd 16777216 0 < secs_of rnd 16777216 1"
    using rnd_of_int[of 16777216] by (simp add: secs_of_def)
  then have "\<not> b64_less (timer_to_s \<lparr>tv_sec = 16777216, tv_nsec = 0\<rparr>) (timer_to_s ?act)"
    using late_iff_secs[of "\<lparr>tv_sec = 16777216, tv_nsec = 0\<rparr>" ?act]
    by (simp add: normalised_def late_def)
  moreover have "inc_step (- 1) ?p
      = Inr (0, \<lparr>next_period = \<lparr>tv_sec = 16777216, tv_nsec = 0\<rparr>, period_ns = 1000000\<rparr>)"
    using inc_step_total[of ?p "- 1"] by (simp add: normalised_def total_ns_def ts_of_def)
  ultimately have "timer_inc_period ?act ?p
      = Some (Inr (0, \<lparr>next_period = \<lparr>tv_sec = 16777216, tv_nsec = 0\<rparr>, period_ns = 1000000\<rparr>))"
    unfolding timer_inc_period_def by (subst inc_loop.simps) simp
  then show ?thesis
    by (intro exI[of _ ?act] exI[of _ ?p] exI) (auto simp: normalised_def total_ns_def)
qed

end
