(* ===== verification/Timer_Arith.thy ===== *)
theory Timer_Arith
  imports Timer
begin

text \<open>
  Properties of the clock arithmetic outside the deadline loop: \<open>timer_add\<close>, the
  nanosecond conversions, the comparison, the overload of \<open>timer_inc_period\<close> with an offset
  and the synchronisation controller.
\<close>

subsection \<open>Adding nanoseconds\<close>

text \<open>
  The result of the addition when nothing overflows, in the two cases of the carry. The
  guard of the carry is \<open>>\<close>, so exactly one second of nanoseconds is left alone.
\<close>

lemma timer_add_result:
  assumes "normalised ts" "in_s64 addtime" "\<bar>tv_sec ts\<bar> \<le> 2 ^ 62"
  shows "timer_add ts addtime =
    (let n = tv_nsec ts + addtime smod 10 ^ 9; s = tv_sec ts + addtime sdiv 10 ^ 9 in
     Inr (if 10 ^ 9 < n then \<lparr>tv_sec = s + 1, tv_nsec = n - 10 ^ 9\<rparr>
          else \<lparr>tv_sec = s, tv_nsec = n\<rparr>))"
proof -
  let ?n = "tv_nsec ts + addtime smod 1000000000" and ?s = "tv_sec ts + addtime sdiv 1000000000"
  have r: "- 1000000000 < addtime smod 1000000000" "addtime smod 1000000000 < 1000000000"
    using smod_bounds[of 1000000000 addtime] by simp_all
  have q: "\<bar>addtime sdiv 1000000000\<bar> \<le> 2 ^ 61"
    using assms(2) sdiv_smod[of addtime 1000000000] r by (auto simp: in_s64_def)
  have n: "- (10 ^ 9) < ?n" "?n < 2 * 10 ^ 9" using assms(1) r by (auto simp: normalised_def)
  have s: "\<bar>?s\<bar> \<le> 2 ^ 62 + 2 ^ 61" using assms(3) q by linarith
  have c: "?n smod 1000000000 = ?n - 10 ^ 9" "(10 ^ 9 :: int) sdiv 1000000000 = 1" if "10 ^ 9 < ?n"
  proof -
    have "?n mod 1000000000 = ?n - 10 ^ 9"
      using that n by (intro int_mod_pos_eq[where q = 1]) auto
    then show "?n smod 1000000000 = ?n - 10 ^ 9" using that by (simp add: smod_mod_positive)
  qed simp
  show ?thesis
    using n s q whole_part(1)[of 1000000000 addtime] whole_part_in_s64[OF assms(2), of 1000000000] c
    by (simp add: timer_add_def mod64_pos div64_pos assms(2) sub64_def add64_def Let_def)
qed

text \<open>C35: timer_add adds exactly the given number of nanoseconds, positive or negative, to a
  normalised time; the result is normalised exactly unless the nanoseconds come out negative
  (a negative increment is not borrowed from the seconds) or as one full second (the guard
  of the carry is > where >= is needed).\<close>

theorem timer_add_total:
  assumes "normalised ts" "in_s64 addtime" "\<bar>tv_sec ts\<bar> \<le> 2 ^ 62"
  shows "\<exists>ts'. timer_add ts addtime = Inr ts' \<and> total_ns ts' = total_ns ts + addtime \<and>
    - (10 ^ 9) < tv_nsec ts' \<and> tv_nsec ts' \<le> 10 ^ 9 \<and>
    (normalised ts' \<longleftrightarrow> 0 \<le> tv_nsec ts + addtime smod 10 ^ 9 \<and> tv_nsec ts + addtime smod 10 ^ 9 \<noteq> 10 ^ 9)"
proof -
  have "- 1000000000 < addtime smod 1000000000" "addtime smod 1000000000 < 1000000000"
    "addtime sdiv 1000000000 * 1000000000 + addtime smod 1000000000 = addtime"
    using smod_bounds[of 1000000000 addtime] sdiv_smod by simp_all
  then show ?thesis
    using assms(1) by (auto simp: timer_add_result[OF assms] Let_def normalised_def total_ns_def)
qed

theorem timer_add_total_witness:
  "timer_add \<lparr>tv_sec = 5, tv_nsec = 999999999\<rparr> 1 = Inr \<lparr>tv_sec = 5, tv_nsec = 1000000000\<rparr> \<and>
   (\<exists>ts'. timer_add \<lparr>tv_sec = 5, tv_nsec = 999999999\<rparr> 1 = Inr ts' \<and> \<not> normalised ts' \<and>
      total_ns ts' = 6000000000)"
proof -
  have "timer_add \<lparr>tv_sec = 5, tv_nsec = 999999999\<rparr> 1 = Inr \<lparr>tv_sec = 5, tv_nsec = 1000000000\<rparr>"
    by code_simp
  then show ?thesis
    using timer_add_total[of "\<lparr>tv_sec = 5, tv_nsec = 999999999\<rparr>" 1]
    by (simp add: normalised_def total_ns_def in_s64_def)
qed

subsection \<open>Comparison\<close>

text \<open>On normalised times timer_greater_than is the order of the total nanoseconds.\<close>

theorem timer_greater_than_total:
  assumes "normalised a" "normalised b"
  shows "timer_greater_than a b \<longleftrightarrow> total_ns b < total_ns a"
  using total_ns_less_iff[OF assms(2,1)] by (auto simp: timer_greater_than_def)

theorem timer_greater_than_total_witness:
  "timer_greater_than \<lparr>tv_sec = 7, tv_nsec = 0\<rparr> \<lparr>tv_sec = 6, tv_nsec = 999999999\<rparr>"
  using timer_greater_than_total[of "\<lparr>tv_sec = 7, tv_nsec = 0\<rparr>" "\<lparr>tv_sec = 6, tv_nsec = 999999999\<rparr>"]
  by (simp add: normalised_def total_ns_def)

subsection \<open>Nanoseconds through a double\<close>

lemma rat_trunc_int [simp]: "rat_trunc (of_int k) = k"
  by (simp add: rat_trunc_def)

text \<open>A whole number of seconds is exact in nanoseconds for 126 years.\<close>

lemma b64_seconds_in_ns:
  assumes "\<bar>s\<bar> \<le> 4 * 10 ^ 9"
  shows "fp_of (b64_mul (b64_lit (10 ^ 9)) (b64_of_int s)) = Fin (of_int (s * 10 ^ 9))"
proof -
  have "representable (of_int (s * 5 ^ 9) * 2 powi 9)"
    by (rule representable_scaled) (use assms in auto)
  then have "representable (of_int (s * 10 ^ 9))" by (simp add: mult.assoc)
  then have r: "rnd (10 ^ 9 * of_int s) = of_int (s * 10 ^ 9)"
    by (subst rnd_exact) (simp_all add: mult.commute)
  have "\<bar>10 ^ 9 * of_int s :: rat\<bar> \<le> 2 ^ 100"
    using of_int_abs_le[of "10 ^ 9 * s" "2 ^ 100"] assms by simp
  then show ?thesis
    using b64_mul_val[OF _ b64_of_int_val, of "b64_lit (10 ^ 9)" "10 ^ 9" s] assms r
    by (simp add: fits64_small)
qed

lemma b64_sum_to_int:
  assumes "fp_of a = Fin (of_int j)" "fp_of b = Fin (of_int k)" "\<bar>j + k\<bar> \<le> 2 ^ 53"
  shows "b64_to_int in_s64 (b64_add a b) = Inr (j + k)"
proof -
  have "\<bar>of_int j + of_int k :: rat\<bar> \<le> 2 ^ 100"
    using of_int_abs_le[of "j + k" "2 ^ 53"] assms(3) by simp
  then have "fp_of (b64_add a b) = Fin (rnd (of_int (j + k)))"
    using b64_add_val[OF assms(1,2)] by (simp add: fits64_small)
  then have "fp_of (b64_add a b) = Fin (of_int (j + k))" by (simp only: rnd_of_int[OF assms(3)])
  moreover have "in_s64 (j + k)" using assms(3) by simp
  ultimately show ?thesis by (simp only: b64_to_int_def fp.case rat_trunc_int if_True)
qed

text \<open>timer_difference_ns is the exact difference in nanoseconds while the difference is at most
  2^53 ns (104 days).\<close>

theorem timer_difference_ns_exact:
  assumes "normalised a" "normalised b" "\<bar>tv_sec a\<bar> \<le> 2 ^ 62" "\<bar>tv_sec b\<bar> \<le> 2 ^ 62"
    and "\<bar>total_ns a - total_ns b\<bar> \<le> 2 ^ 53"
  shows "timer_difference_ns a b = Inr (total_ns a - total_ns b)"
proof -
  let ?dn = "tv_nsec a - tv_nsec b" and ?ds = "tv_sec a - tv_sec b"
  have t: "total_ns a - total_ns b = ?dn + ?ds * 10 ^ 9" by (simp add: total_ns_def algebra_simps)
  have dn: "\<bar>?dn\<bar> < 10 ^ 9" using assms(1,2) by (auto simp: normalised_def)
  have ds: "\<bar>?ds\<bar> \<le> 4 * 10 ^ 9" using assms(5) dn unfolding t by (auto simp: abs_le_iff abs_less_iff)
  have "b64_to_int in_s64 (b64_add (b64_of_int ?dn) (b64_mul (b64_lit (10 ^ 9)) (b64_of_int ?ds)))
      = Inr (?dn + ?ds * 10 ^ 9)"
    by (rule b64_sum_to_int[OF b64_of_int_val b64_seconds_in_ns[OF ds]]) (use dn assms(5) t in auto)
  moreover have "sub64 (tv_nsec a) (tv_nsec b) = Inr ?dn" "sub64 (tv_sec a) (tv_sec b) = Inr ?ds"
    using dn ds by simp_all
  ultimately show ?thesis by (simp only: timer_difference_ns_def bind_res.simps t)
qed

theorem timer_difference_ns_exact_witness:
  "timer_difference_ns \<lparr>tv_sec = 12, tv_nsec = 5\<rparr> \<lparr>tv_sec = 10, tv_nsec = 900000000\<rparr> = Inr 1100000005"
  using timer_difference_ns_exact[of "\<lparr>tv_sec = 12, tv_nsec = 5\<rparr>" "\<lparr>tv_sec = 10, tv_nsec = 900000000\<rparr>"]
  by (simp add: normalised_def total_ns_def)

text \<open>timer_to_ns is exact for times of at most 2^53 ns.\<close>

theorem timer_to_ns_exact:
  assumes "normalised ts" "\<bar>total_ns ts\<bar> \<le> 2 ^ 53"
  shows "timer_to_ns ts = Inr (total_ns ts)"
proof -
  have n: "0 \<le> tv_nsec ts" "tv_nsec ts < 10 ^ 9" using assms(1) by (simp_all add: normalised_def)
  have s: "\<bar>tv_sec ts\<bar> \<le> 4 * 10 ^ 9" using assms(2) n by (auto simp: total_ns_def abs_le_iff)
  show ?thesis unfolding timer_to_ns_def total_ns_def
    by (rule b64_sum_to_int[OF b64_seconds_in_ns[OF s] b64_of_int_val])
       (use n assms(2) in \<open>auto simp: total_ns_def\<close>)
qed

theorem timer_to_ns_exact_witness:
  "timer_to_ns \<lparr>tv_sec = 9007199, tv_nsec = 254740992\<rparr> = Inr 9007199254740992"
  using timer_to_ns_exact[of "\<lparr>tv_sec = 9007199, tv_nsec = 254740992\<rparr>"]
  by (simp add: normalised_def total_ns_def)

text \<open>
  Past 104 days the sum no longer fits 53 bits; the conversion rounds to a multiple of a
  power of two. The rounded value is still an integer, so the cast loses nothing more.
\<close>

lemma b64_sum_rounds:
  assumes "fp_of a = Fin (of_int j)" "fp_of b = Fin (of_int k)" "\<bar>j + k\<bar> < 2 ^ 62"
  obtains d where "b64_to_int in_s64 (b64_add a b) = Inr d" "rnd (of_int (j + k)) = of_int d"
proof -
  obtain d where d: "rnd (of_int (j + k)) = of_int d" using rnd_int_integral by blast
  have e: "rnd (of_int (2 ^ 62)) = of_int (2 ^ 62)"
    using rnd_exact[OF representable_scaled[of 1 62]] by simp
  have "rnd (of_int (j + k)) \<le> rnd (of_int (2 ^ 62))" "rnd (- of_int (2 ^ 62)) \<le> rnd (of_int (j + k))"
    using assms(3) of_int_le_iff[where 'a = rat, of "j + k" "2 ^ 62"]
      of_int_le_iff[where 'a = rat, of "- (2 ^ 62)" "j + k"]
    by (auto intro!: rnd_mono)
  then have "of_int d \<le> (of_int (2 ^ 62) :: rat)" "(of_int (- (2 ^ 62)) :: rat) \<le> of_int d"
    unfolding rnd_minus e d by simp_all
  then have dd: "in_s64 d" unfolding of_int_le_iff by simp
  have "\<bar>of_int j + of_int k :: rat\<bar> \<le> 2 ^ 100"
    using of_int_abs_le[of "j + k" "2 ^ 62"] assms(3) by simp
  then have "fp_of (b64_add a b) = Fin (rnd (of_int (j + k)))"
    using b64_add_val[OF assms(1,2)] by (simp add: fits64_small)
  then have "b64_to_int in_s64 (b64_add a b) = Inr d"
    unfolding d using dd by (simp add: b64_to_int_def)
  then show ?thesis using d by (rule that)
qed

text \<open>For longer differences, up to 2^61 ns, timer_difference_ns still returns, and its error is
  at most half a unit in the last place of the double that holds the sum.\<close>

theorem timer_difference_ns_error:
  assumes "normalised a" "normalised b" "\<bar>tv_sec a\<bar> \<le> 2 ^ 62" "\<bar>tv_sec b\<bar> \<le> 2 ^ 62"
    and "\<bar>total_ns a - total_ns b\<bar> < 2 ^ (k + 1)" "53 \<le> k" "k \<le> 60"
  shows "\<exists>d. timer_difference_ns a b = Inr d \<and> \<bar>d - (total_ns a - total_ns b)\<bar> \<le> 2 ^ (k - 53)"
proof -
  let ?dn = "tv_nsec a - tv_nsec b" and ?ds = "tv_sec a - tv_sec b"
  let ?e = "?dn + ?ds * 10 ^ 9"
  have t: "total_ns a - total_ns b = ?e" by (simp add: total_ns_def algebra_simps)
  have "(2::int) ^ (k + 1) \<le> 2 ^ 61" using assms(7) by (intro power_increasing) auto
  then have e61: "\<bar>?e\<bar> < 2 ^ 61" using assms(5) t by simp
  then have e62: "\<bar>?e\<bar> < 2 ^ 62" by simp
  have dn: "\<bar>?dn\<bar> < 10 ^ 9" using assms(1,2) by (auto simp: normalised_def)
  have ds: "\<bar>?ds\<bar> \<le> 4 * 10 ^ 9" using e61 dn by (auto simp: abs_le_iff abs_less_iff)
  have m: "fp_of (b64_mul (b64_lit (10 ^ 9)) (b64_of_int ?ds)) = Fin (of_int (?ds * 10 ^ 9))"
    by (rule b64_seconds_in_ns[OF ds])
  obtain d where d: "b64_to_int in_s64 (b64_add (b64_of_int ?dn) (b64_mul (b64_lit (10 ^ 9)) (b64_of_int ?ds))) = Inr d"
    "rnd (of_int ?e) = of_int d"
    by (rule b64_sum_rounds[OF b64_of_int_val m e62]) (use dn in auto)
  have "\<bar>of_int ?e :: rat\<bar> < 2 powi (int k + 1)"
  proof -
    have "of_int \<bar>?e\<bar> < (of_int (2 ^ (k + 1)) :: rat)" using assms(5) unfolding t of_int_less_iff .
    then show ?thesis by (simp add: power_int_add)
  qed
  then have "\<bar>rnd (of_int ?e) - of_int ?e\<bar> \<le> 2 powi (int k - 53)" by (rule rnd_error) simp
  also have "(2::rat) powi (int k - 53) = of_int (2 ^ (k - 53))"
    using assms(6) by (simp add: power_int_def nat_diff_distrib)
  finally have "\<bar>d - ?e\<bar> \<le> 2 ^ (k - 53)"
    unfolding d(2) by (metis of_int_abs of_int_diff of_int_le_iff)
  moreover have "sub64 (tv_nsec a) (tv_nsec b) = Inr ?dn" "sub64 (tv_sec a) (tv_sec b) = Inr ?ds"
    using dn ds by simp_all
  ultimately show ?thesis using d(1) by (simp only: timer_difference_ns_def bind_res.simps t) blast
qed

theorem timer_difference_ns_error_witness:
  "\<exists>d. timer_difference_ns \<lparr>tv_sec = 18000000, tv_nsec = 123456789\<rparr> \<lparr>tv_sec = 0, tv_nsec = 0\<rparr> = Inr d \<and>
    \<bar>d - 18000000123456789\<bar> \<le> 2"
  using timer_difference_ns_error
    [of "\<lparr>tv_sec = 18000000, tv_nsec = 123456789\<rparr>" "\<lparr>tv_sec = 0, tv_nsec = 0\<rparr>" 54]
  by (simp add: normalised_def total_ns_def)

text \<open>The bound is reached: at 2^53 + 1 ns timer_difference_ns loses a nanosecond.\<close>

theorem timer_difference_ns_loses:
  "timer_difference_ns \<lparr>tv_sec = 9007199, tv_nsec = 254740993\<rparr> \<lparr>tv_sec = 0, tv_nsec = 0\<rparr>
     = Inr 9007199254740992 \<and>
   total_ns \<lparr>tv_sec = 9007199, tv_nsec = 254740993\<rparr> = 9007199254740993"
proof -
  obtain d where d: "b64_to_int in_s64 (b64_add (b64_of_int 254740993)
      (b64_mul (b64_lit (10 ^ 9)) (b64_of_int 9007199))) = Inr d"
    "rnd (of_int (254740993 + 9007199 * 10 ^ 9)) = of_int d"
    by (rule b64_sum_rounds[OF b64_of_int_val[of 254740993] b64_seconds_in_ns[of 9007199]]) auto
  have "rnd 9007199254740993 = 9007199254740992" by code_simp
  then have "d = 9007199254740992" using d(2) by simp
  then show ?thesis using d(1) by (simp add: timer_difference_ns_def)
qed

subsection \<open>Differences in seconds and the overload with an offset\<close>

lemma timer_difference_s_val:
  assumes "\<bar>tv_nsec a - tv_nsec b\<bar> \<le> 10 ^ 9" "\<bar>tv_sec a - tv_sec b\<bar> \<le> 2 ^ 53"
  shows "\<exists>w. timer_difference_s a b = Inr w \<and>
    fp_of w = Fin (rnd (rnd (of_int (tv_nsec a - tv_nsec b) / 10 ^ 9) + of_int (tv_sec a - tv_sec b)))"
proof -
  let ?dn = "tv_nsec a - tv_nsec b" and ?ds = "tv_sec a - tv_sec b"
  let ?q = "of_int ?dn / 10 ^ 9 :: rat"
  have q: "\<bar>?q\<bar> \<le> 1" using of_int_abs_le[OF assms(1)] by simp
  then have rq: "\<bar>rnd ?q\<bar> \<le> 1"
    using b64.r_between[of "- 1" ?q 1] by (simp add: abs_le_iff minus_le_iff)
  have d: "fp_of (b64_div (b64_of_int ?dn) (b64_lit (10 ^ 9))) = Fin (rnd ?q)"
    by (rule b64_div_val[OF b64_of_int_val]) (use assms(1) q in \<open>auto intro!: fits64_small\<close>)
  have "\<bar>of_int ?ds :: rat\<bar> \<le> 2 ^ 53" using of_int_abs_le[OF assms(2)] by simp
  then have "\<bar>rnd ?q + of_int ?ds\<bar> \<le> 2 ^ 100"
    using rq abs_triangle_ineq[of "rnd ?q" "of_int ?ds"] by simp
  then have "fp_of (b64_add (b64_div (b64_of_int ?dn) (b64_lit (10 ^ 9))) (b64_of_int ?ds))
      = Fin (rnd (rnd ?q + of_int ?ds))"
    by (intro b64_add_val[OF d b64_of_int_val[OF assms(2)]] fits64_small)
  moreover have "sub64 (tv_nsec a) (tv_nsec b) = Inr ?dn" "sub64 (tv_sec a) (tv_sec b) = Inr ?ds"
    using assms by simp_all
  ultimately show ?thesis unfolding timer_difference_s_def by (simp only: bind_res.simps) blast
qed

text \<open>A time that is not after another gives a difference that is not positive.\<close>

lemma timer_difference_s_nonpos:
  assumes "0 \<le> tv_nsec a" "tv_nsec a \<le> 10 ^ 9" "0 \<le> tv_nsec b" "tv_nsec b \<le> 10 ^ 9"
    and "\<bar>tv_sec a - tv_sec b\<bar> \<le> 2 ^ 53" "total_ns a \<le> total_ns b"
  shows "\<exists>w. timer_difference_s a b = Inr w \<and> \<not> b64_less (b64_of_int 0) w"
proof -
  let ?dn = "tv_nsec a - tv_nsec b" and ?ds = "tv_sec a - tv_sec b"
  let ?q = "of_int ?dn / 10 ^ 9 :: rat"
  have dn: "\<bar>?dn\<bar> \<le> 10 ^ 9" using assms(1-4) by linarith
  obtain w where w: "timer_difference_s a b = Inr w" "fp_of w = Fin (rnd (rnd ?q + of_int ?ds))"
    using timer_difference_s_val[OF dn assms(5)] by blast
  have t: "?ds * 10 ^ 9 + ?dn \<le> 0" using assms(6) by (simp add: total_ns_def algebra_simps)
  have "(of_int (?ds * 10 ^ 9 + ?dn) :: rat) \<le> of_int 0" using t by (simp only: of_int_le_iff)
  then have "?q \<le> of_int (- ?ds)" by (simp add: field_simps)
  then have "rnd ?q \<le> of_int (- ?ds)"
    using rnd_mono[of ?q "of_int (- ?ds)"] rnd_of_int[of "- ?ds"] assms(5) by simp
  then have "rnd ?q + of_int ?ds \<le> 0" by simp
  then have "rnd (rnd ?q + of_int ?ds) \<le> 0" using rnd_mono[of "rnd ?q + of_int ?ds" 0] by simp
  moreover have "fp_of (b64_of_int 0) = Fin 0" using b64_of_int_val[of 0] by simp
  ultimately show ?thesis using w b64_less_val[of "b64_of_int 0" 0 w] by auto
qed

text \<open>The overload of timer_inc_period with an offset advances the deadline by the period and the
  offset, and always returns 0 when their sum is not negative: it subtracts the new deadline
  from the old one, so the branch that counts periods is never taken.\<close>

theorem timer_inc_period_offset_zero:
  assumes "normalised (next_period p)" "\<bar>tv_sec (next_period p)\<bar> \<le> 2 ^ 62"
    and "0 \<le> period_ns p + offset" "period_ns p + offset < 2 ^ 63"
  shows "\<exists>np. timer_inc_period_offset p offset = Inr (0, p\<lparr>next_period := np\<rparr>) \<and>
    total_ns np = total_ns (next_period p) + period_ns p + offset"
proof -
  let ?a = "period_ns p + offset" and ?t = "next_period p"
  have a: "in_s64 ?a" using assms(3,4) by (simp add: in_s64_def)
  obtain np where np: "timer_add ?t ?a = Inr np"
    "np = (if 10 ^ 9 < tv_nsec ?t + ?a smod 10 ^ 9
       then \<lparr>tv_sec = tv_sec ?t + ?a sdiv 10 ^ 9 + 1, tv_nsec = tv_nsec ?t + ?a smod 10 ^ 9 - 10 ^ 9\<rparr>
       else \<lparr>tv_sec = tv_sec ?t + ?a sdiv 10 ^ 9, tv_nsec = tv_nsec ?t + ?a smod 10 ^ 9\<rparr>)"
    using timer_add_result[OF assms(1) a assms(2)] by (simp add: Let_def)
  have m: "0 \<le> ?a smod 10 ^ 9" "?a smod 10 ^ 9 < 10 ^ 9" using assms(3) by (simp_all add: smod_mod_positive)
  have q: "0 \<le> ?a sdiv 10 ^ 9" "?a sdiv 10 ^ 9 < 2 ^ 52" "?a sdiv 10 ^ 9 * 10 ^ 9 + ?a smod 10 ^ 9 = ?a"
    using sdiv_smod[of ?a "10 ^ 9"] m assms(3,4) by (auto simp: sdiv_pos_cases(1) pos_imp_zdiv_nonneg_iff)
  have tot: "total_ns np = total_ns ?t + ?a" using np(2) q(3) by (auto simp: total_ns_def algebra_simps)
  have ranges: "0 \<le> tv_nsec np" "tv_nsec np \<le> 10 ^ 9" "\<bar>tv_sec ?t - tv_sec np\<bar> \<le> 2 ^ 53"
    using np(2) m q assms(1) by (auto simp: normalised_def)
  obtain w where w: "timer_difference_s ?t np = Inr w" "\<not> b64_less (b64_of_int 0) w"
    using timer_difference_s_nonpos[of ?t np] ranges tot assms(1,3) by (auto simp: normalised_def)
  then show ?thesis using a np(1) tot
    by (intro exI[of _ np]) (simp add: timer_inc_period_offset_def)
qed

theorem timer_inc_period_offset_zero_witness:
  "\<exists>np. timer_inc_period_offset
     \<lparr>next_period = \<lparr>tv_sec = 3, tv_nsec = 500000000\<rparr>, period_ns = 1000000\<rparr> 5000000
     = Inr (0, \<lparr>next_period = np, period_ns = 1000000\<rparr>) \<and> total_ns np = 3506000000"
  using timer_inc_period_offset_zero
    [of "\<lparr>next_period = \<lparr>tv_sec = 3, tv_nsec = 500000000\<rparr>, period_ns = 1000000\<rparr>" 5000000]
  by (simp add: normalised_def total_ns_def)

subsection \<open>The synchronisation controller\<close>

text \<open>The wrapped remainder: congruent to the distance from the sync point, at most half a cycle.\<close>

lemma wrapped_delta:
  assumes "0 \<le> (t::int)" "0 < c"
  defines "d0 \<equiv> t smod c"
  defines "delta \<equiv> (if c sdiv 2 < d0 then d0 - c else d0)"
  shows "delta mod c = t mod c" "2 * \<bar>delta\<bar> \<le> c"
proof -
  have d0: "d0 = t mod c" unfolding d0_def using assms(1,2) by (simp add: smod_mod_positive)
  have h: "c sdiv 2 = c div 2" using assms(2) by (simp add: sdiv_pos_cases(1))
  show "delta mod c = t mod c" unfolding delta_def d0 by simp
  show "2 * \<bar>delta\<bar> \<le> c"
    using pos_mod_bound[OF assms(2), of t] pos_mod_sign[OF assms(2), of t]
    unfolding delta_def d0 h by (auto simp: abs_if)
qed

text \<open>timer_calc_sync_offset works on the distance to the nearest sync point: delta is congruent
  to reftime - 50000 modulo the cycle and at most half a cycle in size, the integral moves
  by the sign of delta, and the offset is -(delta/100) - (integral/20) with truncating
  divisions; nothing overflows.\<close>

theorem timer_calc_sync_offset_spec:
  assumes "50000 \<le> reftime" "reftime < 2 ^ 63" "0 < cycletime" "cycletime < 2 ^ 63" "\<bar>integral\<bar> < 2 ^ 62"
  shows "\<exists>delta off. timer_calc_sync_offset integral reftime cycletime = Inr (off, integral + sgn delta) \<and>
    delta mod cycletime = (reftime - 50000) mod cycletime \<and> 2 * \<bar>delta\<bar> \<le> cycletime \<and>
    off = - (delta sdiv 100) - ((integral + sgn delta) sdiv 20)"
proof -
  let ?t = "reftime - 50000" and ?d0 = "(reftime - 50000) smod cycletime"
  define delta where "delta = (if cycletime sdiv 2 < ?d0 then ?d0 - cycletime else ?d0)"
  let ?i = "integral + sgn delta"
  have t: "in_s64 ?t" "0 \<le> ?t" using assms(1,2) by (auto simp: in_s64_def)
  have d: "delta mod cycletime = ?t mod cycletime" "2 * \<bar>delta\<bar> \<le> cycletime"
    using wrapped_delta[OF t(2) assms(3)] unfolding delta_def by simp_all
  have dr: "in_s64 delta" "in_s64 cycletime" using d(2) assms(3,4) by (auto simp: in_s64_def)
  have i: "\<bar>?i\<bar> \<le> 2 ^ 62" using assms(5) by (auto simp: sgn_if)
  have abs_sdiv: "\<bar>x sdiv y\<bar> \<le> \<bar>x\<bar>" for x y :: int using sdiv_int_range[of x y] by auto
  have off: "in_s64 (- (delta sdiv 100) - (?i sdiv 20))"
  proof -
    have "\<bar>delta sdiv 100\<bar> < 2 ^ 62" using abs_sdiv[of delta 100] d(2) assms(4) by simp
    then show ?thesis using abs_sdiv[of ?i 20] i by (auto simp: in_s64_def)
  qed
  have half: "div64 cycletime 2 = Inr (cycletime sdiv 2)" by (rule div64_pos[OF dr(2)]) simp
  have wrap: "(if ?d0 > cycletime sdiv 2 then sub64 ?d0 cycletime else Inr ?d0) = Inr delta"
    using dr(1) by (simp add: delta_def sub64_def split: if_splits)
  have incr: "(if delta > 0 then add64 integral 1 else Inr integral)
      = Inr (if delta > 0 then integral + 1 else integral)"
    using assms(5) by simp
  have decr: "(if delta < 0 then sub64 (if delta > 0 then integral + 1 else integral) 1
      else Inr (if delta > 0 then integral + 1 else integral)) = Inr ?i"
    using assms(5) by (auto simp: sgn_if)
  have "timer_calc_sync_offset integral reftime cycletime
      = Inr (- (delta sdiv 100) - (?i sdiv 20), ?i)"
    unfolding timer_calc_sync_offset_def
    using t(1) off i dr
    by (simp only: sub64_in bind_res.simps mod64_pos[OF t(1) assms(3)] half wrap incr decr
        div64_pos[OF dr(1), of 100] div64_pos[OF in_s64_small, of ?i 20]) (simp add: div64_pos)
  then show ?thesis using d by blast
qed

theorem timer_calc_sync_offset_spec_witness:
  "\<exists>delta off. timer_calc_sync_offset 7 1900050000 1000000 = Inr (off, 7 + sgn delta) \<and>
    delta mod 1000000 = 0 \<and> 2 * \<bar>delta\<bar> \<le> 1000000"
proof -
  have "\<exists>delta off. timer_calc_sync_offset 7 1900050000 1000000 = Inr (off, 7 + sgn delta) \<and>
    delta mod 1000000 = (1900050000 - 50000) mod 1000000 \<and> 2 * \<bar>delta\<bar> \<le> 1000000 \<and>
    off = - (delta sdiv 100) - ((7 + sgn delta) sdiv 20)"
    by (rule timer_calc_sync_offset_spec) simp_all
  then show ?thesis by auto
qed

end
