(* ===== verification/Timer_Loop.thy ===== *)
theory Timer_Loop
  imports Timer
begin

text \<open>
  The life of a periodic thread: \<open>timer_periodic_init\<close> once, then \<open>timer_inc_period\<close> in every
  cycle. The deadlines stay on the grid of the first one, so that neither the jitter of the
  wake-ups nor missed deadlines make the period drift.
\<close>

text \<open>Successive calls, each with its reading of the clock: the counts returned and the deadline.\<close>

fun timer_incs :: "timespec list \<Rightarrow> period_info \<Rightarrow> (32 word list \<times> period_info) res option" where
  "timer_incs [] p = Some (Inr ([], p))"
| "timer_incs (act # acts) p =
     (case timer_inc_period act p of
        None \<Rightarrow> None
      | Some (Inl e) \<Rightarrow> Some (Inl e)
      | Some (Inr (m, p1)) \<Rightarrow>
          map_option (\<lambda>r. bind_res r (\<lambda>(ms, p'). Inr (m # ms, p'))) (timer_incs acts p1))"

subsection \<open>The grid\<close>

text \<open>
  A reading of the clock: normalised and before \<open>2 ^ 51\<close> s.
\<close>

definition clock_reading :: "timespec \<Rightarrow> bool" where
  "clock_reading act \<longleftrightarrow> normalised act \<and> 0 \<le> tv_sec act \<and> tv_sec act < 2 ^ 51"

lemma total_ns_bounds:
  assumes "normalised ts"
  shows "0 \<le> total_ns ts \<Longrightarrow> 0 \<le> tv_sec ts" "total_ns ts < k * 10 ^ 9 \<Longrightarrow> tv_sec ts < k"
    "tv_sec ts < k \<Longrightarrow> total_ns ts < k * 10 ^ 9" "0 \<le> tv_sec ts \<Longrightarrow> 0 \<le> total_ns ts"
  using assms by (auto simp: total_ns_def normalised_def)

lemma incs_grid:
  assumes "normalised (next_period p)" "0 \<le> start" "start \<le> total_ns (next_period p)"
    and "0 < period_ns p" "period_ns p \<le> 2 ^ 62" "\<forall>act\<in>set acts. clock_reading act"
    and "max (total_ns (next_period p)) (2 ^ 51 * 10 ^ 9) + int (length acts) * period_ns p \<le> 2 ^ 52 * 10 ^ 9"
  shows "(\<exists>ms. length ms = length acts \<and> (\<forall>m\<in>set ms. 0 \<le> m \<and> m < 2 ^ 31) \<and>
      timer_incs acts p = Some (Inr (map word_of_int ms,
        p\<lparr>next_period := ts_of (total_ns (next_period p) + (\<Sum>m\<leftarrow>ms. m + 1) * period_ns p)\<rparr>))) \<or>
    timer_incs acts p = Some (Inl Signed_Overflow) \<and>
      (\<exists>act\<in>set acts. start + 2 ^ 31 * period_ns p \<le> total_ns act)"
  using assms
proof (induction acts arbitrary: p)
  case Nil
  then show ?case by (simp add: ts_of_total)
next
  case (Cons act acts)
  let ?T = "total_ns (next_period p)" and ?P = "period_ns p" and ?M = "2 ^ 51 * 10 ^ 9 :: int"
  have c: "normalised act" "0 \<le> tv_sec act" "tv_sec act < 2 ^ 51"
    using Cons.prems(6) by (simp_all add: clock_reading_def)
  have room: "max ?T ?M + ?P + int (length acts) * ?P \<le> 2 ^ 52 * 10 ^ 9"
    using Cons.prems(7) by (simp add: distrib_right)
  have "0 \<le> int (length acts) * ?P" using Cons.prems(4) by simp
  then have t: "?T < 2 ^ 52 * 10 ^ 9" using room Cons.prems(4) by linarith
  note T = total_ns_bounds[OF Cons.prems(1)] and A = total_ns_bounds[OF c(1)]
  have "0 \<le> tv_sec (next_period p)" "tv_sec (next_period p) \<le> 2 ^ 52"
    using T(1) T(2)[OF t] Cons.prems(2,3) by simp_all
  moreover have "tv_sec act \<le> 2 ^ 52" "total_ns act < ?M" using c(3) A(3)[OF c(3)] by simp_all
  ultimately obtain m where m: "0 \<le> m"
    "timer_inc_period act p = Some (if m < 2 ^ 31 then Inr (word_of_int m,
      p\<lparr>next_period := ts_of (?T + (m + 1) * ?P)\<rparr>) else Inl Signed_Overflow)"
    "?T + m * ?P \<le> max ?T (total_ns act)" "total_ns act < ?M"
    using inc_period_result[OF Cons.prems(1) _ _ c(1,2) _ Cons.prems(4,5)] by metis
  show ?case
  proof (cases "m < 2 ^ 31")
    case False
    then have "2147483648 * ?P \<le> m * ?P" using Cons.prems(4) by (intro mult_right_mono) simp_all
    then have "start + 2147483648 * ?P \<le> total_ns act" using m(3) Cons.prems(3,4) by linarith
    then show ?thesis using m(2) False by simp
  next
    case True
    let ?p = "p\<lparr>next_period := ts_of (?T + (m + 1) * ?P)\<rparr>"
    have s: "?T + (m + 1) * ?P = ?T + m * ?P + ?P" by (simp add: algebra_simps)
    have nn: "0 \<le> m * ?P" using m(1) Cons.prems(4) by simp
    have "?T + m * ?P \<le> max ?T ?M" using m(3,4) by linarith
    then have "max (?T + (m + 1) * ?P) ?M \<le> max ?T ?M + ?P" unfolding s using Cons.prems(4) by linarith
    from add_right_mono[OF this, of "int (length acts) * ?P"] room
    have "max (?T + (m + 1) * ?P) ?M + int (length acts) * ?P \<le> 2 ^ 52 * 10 ^ 9" by (rule order_trans)
    then have "max (total_ns (next_period ?p)) ?M + int (length acts) * period_ns ?p \<le> 2 ^ 52 * 10 ^ 9"
      by simp
    moreover have "start \<le> total_ns (next_period ?p)" using Cons.prems(3,4) nn s by simp
    ultimately consider
      ms where "length ms = length acts" "\<forall>m\<in>set ms. 0 \<le> m \<and> m < 2 ^ 31"
        "timer_incs acts ?p = Some (Inr (map word_of_int ms,
          ?p\<lparr>next_period := ts_of (total_ns (next_period ?p) + (\<Sum>m\<leftarrow>ms. m + 1) * period_ns ?p)\<rparr>))"
      | "timer_incs acts ?p = Some (Inl Signed_Overflow)"
        "\<exists>act\<in>set acts. start + 2 ^ 31 * period_ns ?p \<le> total_ns act"
      using Cons.IH[of ?p] Cons.prems(2,4-6) by auto
    then show ?thesis
    proof cases
      case (1 ms)
      then show ?thesis using m(1,2) True
        by (intro disjI1 exI[of _ "m # ms"]) (simp add: distrib_right add.assoc)
    next
      case 2
      then show ?thesis using m(2) True by auto
    qed
  qed
qed

text \<open>C17: The deadlines of a periodic thread stay on the grid of the first one: after
  timer_periodic_init and any sequence of timer_inc_period calls, the deadline is the start
  plus one period for each call and one for each missed deadline that was reported, to the
  nanosecond, or else the int counter of one call overflowed, a fault, and then some clock
  reading lay 2^31 periods or more after the start. Start and clock readings are normalised
  with seconds from 0 to below 2^51 (in any order), the period is from 1 to 2^62 ns, and the
  number of calls times the period is at most 2^51 s.\<close>

theorem timer_incs_grid:
  assumes "normalised start" "0 \<le> tv_sec start" "tv_sec start < 2 ^ 51" "0 < period" "period \<le> 2 ^ 62"
    and "\<forall>act\<in>set acts. clock_reading act"
    and "int (length acts) * period \<le> 2 ^ 51 * 10 ^ 9"
  shows "(\<exists>ms. length ms = length acts \<and> (\<forall>m\<in>set ms. 0 \<le> m \<and> m < 2 ^ 31) \<and>
      timer_incs acts (timer_periodic_init start period) = Some (Inr (map word_of_int ms,
        \<lparr>next_period = ts_of (total_ns start + (int (length acts) + sum_list ms) * period), period_ns = period\<rparr>))) \<or>
    timer_incs acts (timer_periodic_init start period) = Some (Inl Signed_Overflow) \<and>
      (\<exists>act\<in>set acts. total_ns start + 2 ^ 31 * period \<le> total_ns act)"
proof -
  let ?p = "timer_periodic_init start period"
  note T = total_ns_bounds[OF assms(1)]
  have p: "next_period ?p = start" "period_ns ?p = period" by (simp_all add: timer_periodic_init_def)
  have "max (total_ns start) (2 ^ 51 * 10 ^ 9) + int (length acts) * period \<le> 2 ^ 52 * 10 ^ 9"
    using T(3)[OF assms(3)] assms(7) by simp
  then consider ms where "length ms = length acts" "\<forall>m\<in>set ms. 0 \<le> m \<and> m < 2 ^ 31"
      "timer_incs acts ?p = Some (Inr (map word_of_int ms,
        ?p\<lparr>next_period := ts_of (total_ns start + (\<Sum>m\<leftarrow>ms. m + 1) * period)\<rparr>))"
    | "timer_incs acts ?p = Some (Inl Signed_Overflow)"
      "\<exists>act\<in>set acts. total_ns start + 2 ^ 31 * period \<le> total_ns act"
    using incs_grid[of ?p "total_ns start" acts] assms T(4) unfolding p by auto
  then show ?thesis
  proof cases
    case (1 ms)
    then have "(\<Sum>m\<leftarrow>ms. m + 1) = int (length acts) + sum_list ms"
      by (simp add: sum_list_addf sum_list_triv)
    then show ?thesis using 1 by (intro disjI1 exI[of _ ms]) (simp add: timer_periodic_init_def)
  qed simp
qed

lemma timer_incs_grid_witness:
  "\<exists>m1 m2. timer_incs [\<lparr>tv_sec = 9, tv_nsec = 3\<rparr>, \<lparr>tv_sec = 10, tv_nsec = 5\<rparr>]
      (timer_periodic_init \<lparr>tv_sec = 9, tv_nsec = 0\<rparr> 300000000) = Some (Inr ([word_of_int m1, word_of_int m2],
        \<lparr>next_period = ts_of (9600000000 + (m1 + m2) * 300000000), period_ns = 300000000\<rparr>))"
proof -
  have "\<exists>ms. length ms = Suc (Suc 0) \<and>
    timer_incs [\<lparr>tv_sec = 9, tv_nsec = 3\<rparr>, \<lparr>tv_sec = 10, tv_nsec = 5\<rparr>]
      (timer_periodic_init \<lparr>tv_sec = 9, tv_nsec = 0\<rparr> 300000000) = Some (Inr (map word_of_int ms,
        \<lparr>next_period = ts_of (9000000000 + (2 + sum_list ms) * 300000000), period_ns = 300000000\<rparr>))"
    using timer_incs_grid[of "\<lparr>tv_sec = 9, tv_nsec = 0\<rparr>" 300000000
        "[\<lparr>tv_sec = 9, tv_nsec = 3\<rparr>, \<lparr>tv_sec = 10, tv_nsec = 5\<rparr>]"]
    by (auto simp: clock_reading_def normalised_def total_ns_def simp del: timer_incs.simps)
  then obtain m1 m2 where "timer_incs [\<lparr>tv_sec = 9, tv_nsec = 3\<rparr>, \<lparr>tv_sec = 10, tv_nsec = 5\<rparr>]
      (timer_periodic_init \<lparr>tv_sec = 9, tv_nsec = 0\<rparr> 300000000) = Some (Inr (map word_of_int [m1, m2],
        \<lparr>next_period = ts_of (9000000000 + (2 + sum_list [m1, m2]) * 300000000), period_ns = 300000000\<rparr>))"
    by (auto simp: length_Suc_conv simp del: timer_incs.simps)
  then show ?thesis
    by (intro exI[of _ m1] exI[of _ m2]) (simp add: distrib_right del: timer_incs.simps)
qed

subsection \<open>A punctual thread\<close>

text \<open>Each wake-up comes at its deadline or less than a period after it.\<close>

fun punctual :: "int \<Rightarrow> int \<Rightarrow> timespec list \<Rightarrow> bool" where
  "punctual T P [] \<longleftrightarrow> True"
| "punctual T P (act # acts) \<longleftrightarrow> normalised act \<and> tv_sec act < 2 ^ 23 - 2 \<and>
     T \<le> total_ns act \<and> total_ns act \<le> T + P \<and> punctual (T + P) P acts"

lemma incs_punctual:
  assumes "normalised (next_period p)" "0 \<le> tv_sec (next_period p)" "0 < period_ns p" "period_ns p \<le> 10 ^ 9"
    and "punctual (total_ns (next_period p)) (period_ns p) acts"
  shows "timer_incs acts p = Some (Inr (replicate (length acts) 0,
    p\<lparr>next_period := ts_of (total_ns (next_period p) + int (length acts) * period_ns p)\<rparr>))"
  using assms
proof (induction acts arbitrary: p)
  case Nil
  then show ?case by (simp add: ts_of_total)
next
  case (Cons act acts)
  let ?T = "total_ns (next_period p)" and ?P = "period_ns p"
  let ?p = "p\<lparr>next_period := ts_of (?T + ?P)\<rparr>"
  have a: "normalised act" "tv_sec act < 2 ^ 23 - 2" "?T \<le> total_ns act" "total_ns act \<le> ?T + ?P"
    "punctual (?T + ?P) ?P acts" using Cons.prems(5) by simp_all
  note T = total_ns_bounds[OF Cons.prems(1)] and A = total_ns_bounds[OF a(1)]
  have t0: "0 \<le> ?T" by (rule T(4)[OF Cons.prems(2)])
  have b: "tv_sec (next_period p) < 2 ^ 23 - 2" "0 \<le> tv_sec act"
    using T(2)[of "2 ^ 23 - 2"] A(3)[OF a(2)] A(1) a(3,4) t0 by simp_all
  have m: "max 0 ((total_ns act - ?T - 1) div ?P) = 0"
    using missed_count[OF Cons.prems(3), of 0 ?T "total_ns act"] a(3,4) by simp
  have "timer_inc_period act p = Some (Inr (0, ?p))"
    using inc_period_exact[OF Cons.prems(1,2) b(1) a(1) b(2) a(2) Cons.prems(3,4)] m by simp
  moreover have "timer_incs acts ?p = Some (Inr (replicate (length acts) 0,
      ?p\<lparr>next_period := ts_of (total_ns (next_period ?p) + int (length acts) * period_ns ?p)\<rparr>))"
    by (rule Cons.IH) (use Cons.prems(3,4) a(5) t0 in \<open>auto simp: tv_ts_of pos_imp_zdiv_nonneg_iff\<close>)
  ultimately show ?case by (simp add: algebra_simps)
qed

text \<open>C16: Jitter does not add up: in the first 97 days (start and clock readings normalised, not
  negative, the readings below 2^23 - 2 s) and with a period from 1 ns to one second, a
  thread that in every cycle wakes up at its deadline or at most one period after it is told
  of no missed deadline, and its n-th deadline is the start plus exactly n periods, however
  late within its period each wake-up was.\<close>

theorem timer_incs_punctual:
  assumes "normalised start" "0 \<le> tv_sec start" "0 < period" "period \<le> 10 ^ 9"
    and "punctual (total_ns start) period acts"
  shows "timer_incs acts (timer_periodic_init start period) = Some (Inr (replicate (length acts) 0,
    \<lparr>next_period = ts_of (total_ns start + int (length acts) * period), period_ns = period\<rparr>))"
  using incs_punctual[of "timer_periodic_init start period" acts] assms by (simp add: timer_periodic_init_def)

lemma timer_incs_punctual_witness:
  "timer_incs [\<lparr>tv_sec = 9, tv_nsec = 900\<rparr>, \<lparr>tv_sec = 9, tv_nsec = 1999999\<rparr>, \<lparr>tv_sec = 9, tv_nsec = 2000000\<rparr>]
      (timer_periodic_init \<lparr>tv_sec = 9, tv_nsec = 0\<rparr> 1000000) =
    Some (Inr ([0, 0, 0], \<lparr>next_period = \<lparr>tv_sec = 9, tv_nsec = 3000000\<rparr>, period_ns = 1000000\<rparr>))"
  using timer_incs_punctual[of "\<lparr>tv_sec = 9, tv_nsec = 0\<rparr>" 1000000
      "[\<lparr>tv_sec = 9, tv_nsec = 900\<rparr>, \<lparr>tv_sec = 9, tv_nsec = 1999999\<rparr>, \<lparr>tv_sec = 9, tv_nsec = 2000000\<rparr>]"]
  by (simp add: normalised_def ts_of_def numeral_3_eq_3 del: timer_incs.simps)

end
