(* ===== verification/Interprocess.thy ===== *)
theory Interprocess
  imports Binary64
begin

text \<open>
  Bytes, \<open>memcpy\<close> and the shared-memory library. The library (Boost.Interprocess) is not
  part of the repository: its operations are the fields of a record that the model of
  \<open>RealTimeIPC\<close> takes as an argument, and the locale \<open>interprocess\<close> states what its
  documentation promises. An in-memory instance shows that the promises can be kept.
\<close>

unbundle bit_operations_syntax

type_synonym byte = "8 word"
type_synonym size_t = "64 word"

subsection \<open>Bytes of a double\<close>

definition bytes_of_b64 :: "b64 \<Rightarrow> byte list" where
  "bytes_of_b64 w = map (\<lambda>i. ucast (drop_bit (8 * i) w)) [0..<8]"

definition b64_of_bytes :: "byte list \<Rightarrow> b64" where
  "b64_of_bytes bs = foldr (\<lambda>b acc. ucast b OR push_bit 8 acc) bs 0"

lemma length_bytes_of_b64 [simp]: "length (bytes_of_b64 w) = 8"
  by (simp add: bytes_of_b64_def)

lemma byte_step:
  fixes w :: b64
  shows "ucast (ucast (drop_bit n w) :: byte) OR push_bit 8 (drop_bit (n + 8) w) = drop_bit n w"
proof (rule bit_word_eqI)
  fix k :: nat
  assume "k < LENGTH(64)"
  then show "bit (ucast (ucast (drop_bit n w) :: byte) OR push_bit 8 (drop_bit (n + 8) w)) k
      = bit (drop_bit n w) k"
    by (cases "k < 8") (simp_all add: bit_simps add.commute add.left_commute)
qed

lemma b64_of_bytes_of [simp]: "b64_of_bytes (bytes_of_b64 w) = w"
proof -
  have z: "drop_bit 64 w = 0" by (rule bit_word_eqI) (auto simp: bit_simps dest: bit_imp_le_length)
  show ?thesis
    using byte_step[of 0 w] byte_step[of 8 w] byte_step[of 16 w] byte_step[of 24 w]
      byte_step[of 32 w] byte_step[of 40 w] byte_step[of 48 w] byte_step[of 56 w] z
    by (simp add: b64_of_bytes_def bytes_of_b64_def upt_rec[of _ 8] upt_conv_Cons)
qed

lemma b64_of_bytes_zero [simp]: "b64_of_bytes (replicate n 0) = 0"
  by (induction n) (auto simp: b64_of_bytes_def)

subsection \<open>Copying memory\<close>

text \<open>
  \<open>memcpy(dst, src, n)\<close> on objects of known sizes: a count that runs past either object
  is a fault, otherwise the first \<open>n\<close> bytes are replaced.
\<close>

definition memcpy :: "byte list \<Rightarrow> byte list \<Rightarrow> nat \<Rightarrow> byte list res" where
  "memcpy dst src n =
     (if n \<le> length dst \<and> n \<le> length src then Inr (take n src @ drop n dst)
      else Inl Out_Of_Bounds)"

definition memset0 :: "byte list \<Rightarrow> nat \<Rightarrow> byte list res" where
  "memset0 dst n =
     (if n \<le> length dst then Inr (replicate n 0 @ drop n dst) else Inl Out_Of_Bounds)"

lemma memcpy_length: "memcpy dst src n = Inr r \<Longrightarrow> length r = length dst"
  by (auto simp: memcpy_def split: if_splits)

lemma memset0_length: "memset0 dst n = Inr r \<Longrightarrow> length r = length dst"
  by (auto simp: memset0_def split: if_splits)

subsection \<open>The library\<close>

datatype ipc_exn = Not_Found | Already_Exists | Other_Ipc | Std_Exn

text \<open>
  \<open>lib_map\<close> is the constructor of a mapped region (\<open>None\<close>: it returns), \<open>lib_read\<close> and
  \<open>lib_write\<close> the bytes of the region, whose number is the region's \<open>get_size\<close>.
\<close>

record ('w, 'h) ipc_lib =
  lib_shm_create :: "string \<Rightarrow> nat \<Rightarrow> 'w \<Rightarrow> ipc_exn + 'h \<times> 'w"
  lib_shm_open :: "string \<Rightarrow> 'w \<Rightarrow> ipc_exn + 'h"
  lib_shm_remove :: "string \<Rightarrow> 'w \<Rightarrow> bool \<times> 'w"
  lib_truncate :: "'h \<Rightarrow> nat \<Rightarrow> 'w \<Rightarrow> ipc_exn + 'w"
  lib_map :: "'h \<Rightarrow> 'w \<Rightarrow> ipc_exn option"
  lib_read :: "'h \<Rightarrow> 'w \<Rightarrow> byte list"
  lib_write :: "'h \<Rightarrow> byte list \<Rightarrow> 'w \<Rightarrow> 'w"
  lib_mutex_create :: "string \<Rightarrow> nat \<Rightarrow> 'w \<Rightarrow> ipc_exn + 'w"
  lib_mutex_open :: "string \<Rightarrow> 'w \<Rightarrow> ipc_exn option"
  lib_mutex_remove :: "string \<Rightarrow> 'w \<Rightarrow> bool \<times> 'w"

locale interprocess =
  fixes L :: "('w, 'h) ipc_lib"
  assumes read_write: "length bs = length (lib_read L h w) \<Longrightarrow> lib_read L h (lib_write L h bs w) = bs"
    and create_open: "lib_shm_create L n p w = Inr (h, w') \<Longrightarrow> lib_shm_open L n w' = Inr h"
    and create_exists: "lib_shm_open L n w = Inr h \<Longrightarrow> lib_shm_create L n p w = Inl Already_Exists"
    and open_truncate: "lib_truncate L h k w = Inr w' \<Longrightarrow> lib_shm_open L n w' = lib_shm_open L n w"
    and open_write: "lib_shm_open L n (lib_write L h bs w) = lib_shm_open L n w"
    and open_mutex: "lib_mutex_create L m p w = Inr w' \<Longrightarrow> lib_shm_open L n w' = lib_shm_open L n w"
    and truncate_size: "lib_truncate L h k w = Inr w' \<Longrightarrow> length (lib_read L h w') = k"
    and read_mutex: "lib_mutex_create L m p w = Inr w' \<Longrightarrow> lib_read L h w' = lib_read L h w"
    and mutex_created: "lib_mutex_create L m p w = Inr w' \<Longrightarrow> lib_mutex_open L m w' = None"
    and mutex_write: "lib_mutex_open L m (lib_write L h bs w) = lib_mutex_open L m w"
    and map_write: "length bs = length (lib_read L h w) \<Longrightarrow> lib_map L h (lib_write L h bs w) = lib_map L h w"
    and map_mutex: "lib_mutex_create L m p w = Inr w' \<Longrightarrow> lib_map L h w' = lib_map L h w"
    and remove_gone: "lib_shm_remove L n w = (True, w') \<Longrightarrow> lib_shm_open L n w' = Inl Not_Found"
    and remove_read: "lib_read L h (snd (lib_shm_remove L n w)) = lib_read L h w"
    and remove_mutex_open: "lib_shm_open L n (snd (lib_mutex_remove L m w)) = lib_shm_open L n w"
    and remove_mutex_read: "lib_read L h (snd (lib_mutex_remove L m w)) = lib_read L h w"
begin

lemma length_write:
  "length bs = length (lib_read L h w) \<Longrightarrow> length (lib_read L h (lib_write L h bs w)) = length bs"
  by (simp add: read_write)

lemmas open_frame = open_truncate open_write open_mutex

end

subsection \<open>An instance in memory\<close>

record mem_world =
  mw_next :: nat
  mw_names :: "string \<Rightarrow> nat option"
  mw_data :: "nat \<Rightarrow> byte list"
  mw_mutexes :: "string \<Rightarrow> bool"

definition mem_lib :: "(mem_world, nat) ipc_lib" where
  "mem_lib = \<lparr>
     lib_shm_create = (\<lambda>n p w. case mw_names w n of
         Some _ \<Rightarrow> Inl Already_Exists
       | None \<Rightarrow> Inr (mw_next w, w\<lparr>mw_next := Suc (mw_next w), mw_names := (mw_names w)(n \<mapsto> mw_next w),
           mw_data := (mw_data w)(mw_next w := [])\<rparr>)),
     lib_shm_open = (\<lambda>n w. case mw_names w n of Some h \<Rightarrow> Inr h | None \<Rightarrow> Inl Not_Found),
     lib_shm_remove = (\<lambda>n w. (mw_names w n \<noteq> None, w\<lparr>mw_names := (mw_names w)(n := None)\<rparr>)),
     lib_truncate = (\<lambda>h k w. Inr (w\<lparr>mw_data := (mw_data w)(h :=
         take k (mw_data w h) @ replicate (k - length (mw_data w h)) 0)\<rparr>)),
     lib_map = (\<lambda>h w. if mw_data w h = [] then Some Other_Ipc else None),
     lib_read = (\<lambda>h w. mw_data w h),
     lib_write = (\<lambda>h bs w. w\<lparr>mw_data := (mw_data w)(h := bs)\<rparr>),
     lib_mutex_create = (\<lambda>m p w. if mw_mutexes w m then Inl Already_Exists
         else Inr (w\<lparr>mw_mutexes := (mw_mutexes w)(m := True)\<rparr>)),
     lib_mutex_open = (\<lambda>m w. if mw_mutexes w m then None else Some Not_Found),
     lib_mutex_remove = (\<lambda>m w. (mw_mutexes w m, w\<lparr>mw_mutexes := (mw_mutexes w)(m := False)\<rparr>))\<rparr>"

definition mem_empty :: mem_world where
  "mem_empty = \<lparr>mw_next = 0, mw_names = (\<lambda>_. None), mw_data = (\<lambda>_. []), mw_mutexes = (\<lambda>_. False)\<rparr>"

interpretation mem: interprocess mem_lib
  by unfold_locales (auto simp: mem_lib_def split: option.splits if_splits)

end
