(* ===== verification/RealTime_IPC.thy ===== *)
theory RealTime_IPC
  imports Interprocess Timer
begin

text \<open>
  The class \<open>RealTimeIPC\<close> of \<open>include/realtime_utilities/realtime_ipc.h\<close> and
  \<open>internal/realtime_ipc_impl.h\<close>: one end of a shared-memory channel that carries a bond
  flag, a real-time flag, a time stamp and a data buffer. Every method is translated with
  its guards, asserts and early returns; the library is the argument \<open>L\<close>, and \<open>nd\<close> says
  whether the code is compiled with \<open>NDEBUG\<close> (asserts compiled out), as the Release build
  of the repository is. Messages printed to the console are left out.
\<close>

subsection \<open>Types and constants\<close>

datatype skin = POSIX | RT_POSIX | RT_ALCHEMY

datatype access_mode =
  PIPE_SERVER | SHMEM_SERVER | MQUEUE_SERVER | PIPE_CLIENT | SHMEM_CLIENT | MQUEUE_CLIENT

datatype error_code = NONE_ERROR | UNMACTHED_DATA_DIMENSION | UNCORRECT_CALL | WATCHDOG

definition isClient :: "access_mode \<Rightarrow> bool" where
  "isClient m \<longleftrightarrow> m = PIPE_CLIENT \<or> m = SHMEM_CLIENT \<or> m = MQUEUE_CLIENT"

definition isServer :: "access_mode \<Rightarrow> bool" where
  "isServer m \<longleftrightarrow> m = PIPE_SERVER \<or> m = SHMEM_SERVER \<or> m = MQUEUE_SERVER"

abbreviation (input) header_size :: nat where "header_size \<equiv> 10"
abbreviation (input) packet_size :: nat where "packet_size \<equiv> 1034"
abbreviation (input) header_dim :: size_t where "header_dim \<equiv> 10"

text \<open>
  A \<open>DataPacket\<close> is 1034 bytes: the packed header (bond flag, real-time flag, eight bytes of
  time) and a buffer of \<open>MAX_IPC_BUF_LENGHT = 1024\<close> bytes.
\<close>

type_synonym packet = "byte list"

definition packet_clear :: packet where
  "packet_clear = replicate packet_size 0"

definition bond_flag :: "packet \<Rightarrow> byte" where "bond_flag p = p ! 0"
definition rt_flag :: "packet \<Rightarrow> byte" where "rt_flag p = p ! 1"
definition time_of :: "packet \<Rightarrow> b64" where "time_of p = b64_of_bytes (take 8 (drop 2 p))"
definition data_of :: "packet \<Rightarrow> byte list" where "data_of p = drop header_size p"

definition set_bond_flag :: "byte \<Rightarrow> packet \<Rightarrow> packet" where "set_bond_flag v p = p[0 := v]"
definition set_rt_flag :: "byte \<Rightarrow> packet \<Rightarrow> packet" where "set_rt_flag v p = p[1 := v]"

definition set_time :: "b64 \<Rightarrow> packet \<Rightarrow> packet" where
  "set_time t p = take 2 p @ bytes_of_b64 t @ drop header_size p"

definition set_data :: "byte list \<Rightarrow> packet \<Rightarrow> packet" where
  "set_data bs p = take header_size p @ bs"

text \<open>The members of one object. A null \<open>mutex_\<close> is \<open>False\<close>, an empty region \<open>None\<close>.\<close>

record 'h rtipc =
  access_mode :: access_mode
  rt_skin :: skin
  operational_time :: b64
  watchdog :: b64
  ipc_name :: string
  dim_with_header :: size_t
  shared_memory :: "'h option"
  shared_map :: "'h option"
  ipc_mutex :: bool
  start_watchdog_time :: b64
  data_time_prev :: b64
  flush_time_prev :: b64
  bond_cnt :: nat
  bonded_prev :: bool
  is_hard_rt_prev :: bool

text \<open>What a process sees of the system: the library's state and its file mode mask.\<close>

record 'w sys =
  world :: 'w
  umask :: nat

subsection \<open>Construction\<close>

text \<open>
  The \<open>try\<close> block of \<open>init\<close> for the two shared-memory modes. An exception stops the block
  where it is thrown; what was done before it stays done.
\<close>

definition init_server ::
  "('w, 'h) ipc_lib \<Rightarrow> 'h rtipc \<Rightarrow> 'w sys \<Rightarrow> ipc_exn option \<times> 'h rtipc \<times> 'w sys" where
  "init_server L c s =
     (if header_dim < dim_with_header c then
        let old_umask = umask s; s0 = s\<lparr>umask := 0\<rparr>; d = unat (dim_with_header c) in
        (case lib_shm_create L (ipc_name c) 447 (world s0) of
           Inl e \<Rightarrow> (Some e, c, s0)
         | Inr (h, w1) \<Rightarrow>
             let c1 = c\<lparr>shared_memory := Some h\<rparr>; s1 = s0\<lparr>world := w1\<rparr> in
             (case lib_truncate L h d (world s1) of
                Inl e \<Rightarrow> (Some e, c1, s1)
              | Inr w2 \<Rightarrow>
                  let s2 = s1\<lparr>world := w2\<rparr> in
                  (case lib_map L h (world s2) of
                     Some e \<Rightarrow> (Some e, c1, s2)
                   | None \<Rightarrow>
                       let c3 = c1\<lparr>shared_map := Some h\<rparr>;
                           n = length (lib_read L h (world s2));
                           s3 = s2\<lparr>world := lib_write L h (replicate n 0) (world s2)\<rparr> in
                       (case lib_mutex_create L (ipc_name c) 447 (world s3) of
                          Inl e \<Rightarrow> (Some e, c3, s3)
                        | Inr w4 \<Rightarrow>
                            (None, c3\<lparr>ipc_mutex := True\<rparr>, s3\<lparr>world := w4, umask := old_umask\<rparr>)))))
      else (None, c, s))"

definition init_client ::
  "bool \<Rightarrow> ('w, 'h) ipc_lib \<Rightarrow> 'h rtipc \<Rightarrow> 'w sys \<Rightarrow> (ipc_exn option \<times> 'h rtipc) res" where
  "init_client nd L c s =
     (case lib_shm_open L (ipc_name c) (world s) of
        Inl e \<Rightarrow> Inr (Some e, c)
      | Inr h \<Rightarrow>
          let c1 = c\<lparr>shared_memory := Some h\<rparr> in
          (case lib_map L h (world s) of
             Some e \<Rightarrow> Inr (Some e, c1)
           | None \<Rightarrow>
               let c2 = c1\<lparr>shared_map := Some h\<rparr> in
               (case lib_mutex_open L (ipc_name c) (world s) of
                  Some e \<Rightarrow> Inr (Some e, c2)
                | None \<Rightarrow>
                    let c3 = c2\<lparr>ipc_mutex := True,
                      dim_with_header := word_of_nat (length (lib_read L h (world s)))\<rparr> in
                    bind_res (assert_res nd (header_dim < dim_with_header c3)) (\<lambda>_.
                      Inr (None, c3)))))"

text \<open>
  \<open>init\<close>: the switch, the two handlers, and the flag it returns. A missing memory is not an
  error for a client.
\<close>

definition ipc_init ::
  "bool \<Rightarrow> ('w, 'h) ipc_lib \<Rightarrow> 'h rtipc \<Rightarrow> 'w sys \<Rightarrow> (bool \<times> 'h rtipc) res \<times> 'w sys" where
  "ipc_init nd L c0 s =
     (let c = c0\<lparr>rt_skin := POSIX\<rparr>;
          handled = (\<lambda>e. e = None \<or> access_mode c = SHMEM_CLIENT \<and> e = Some Not_Found) in
      case access_mode c of
        PIPE_SERVER \<Rightarrow>
          (bind_res (assert_res nd (rt_skin c = RT_ALCHEMY)) (\<lambda>_.
           bind_res (assert_res nd False) (\<lambda>_. Inr (True, c))), s)
      | PIPE_CLIENT \<Rightarrow>
          (bind_res (assert_res nd (rt_skin c = POSIX)) (\<lambda>_.
           bind_res (assert_res nd False) (\<lambda>_. Inr (True, c))), s)
      | SHMEM_SERVER \<Rightarrow>
          (case init_server L c s of (e, c', s') \<Rightarrow> (Inr (handled e, c'), s'))
      | SHMEM_CLIENT \<Rightarrow>
          (bind_res (init_client nd L c s) (\<lambda>(e, c'). Inr (handled e, c')), s)
      | MQUEUE_SERVER \<Rightarrow>
          (bind_res (assert_res nd (rt_skin c = RT_POSIX)) (\<lambda>_.
           bind_res (assert_res nd False) (\<lambda>_. Inr (True, c))), s)
      | MQUEUE_CLIENT \<Rightarrow>
          (bind_res (assert_res nd (rt_skin c = RT_POSIX)) (\<lambda>_.
           bind_res (assert_res nd False) (\<lambda>_. Inr (True, c))), s))"

text \<open>The constructor: the initialiser list, then \<open>init\<close>, and an exception if it fails.\<close>

definition RealTimeIPC ::
  "bool \<Rightarrow> ('w, 'h) ipc_lib \<Rightarrow> string \<Rightarrow> b64 \<Rightarrow> b64 \<Rightarrow> access_mode \<Rightarrow> size_t \<Rightarrow> 'w sys
     \<Rightarrow> 'h rtipc res \<times> 'w sys" where
  "RealTimeIPC nd L identifier op_time watchdog_decimation mode n_dim s =
     (let c = \<lparr>access_mode = mode, rt_skin = POSIX, operational_time = op_time,
                watchdog = watchdog_decimation, ipc_name = identifier,
                dim_with_header = n_dim + header_dim, shared_memory = None, shared_map = None,
                ipc_mutex = False, start_watchdog_time = b64_of_int (-1),
                data_time_prev = b64_of_int 0, flush_time_prev = b64_of_int 0, bond_cnt = 0,
                bonded_prev = False, is_hard_rt_prev = False\<rparr>
      in case ipc_init nd L c s of (r, s') \<Rightarrow>
        (bind_res r (\<lambda>(ok, c'). if ok then Inr c'
           else Inl (Uncaught ''Error in Init RealTimeIPC. Abort.'')), s'))"

subsection \<open>Moving a packet\<close>

text \<open>
  \<open>getDataPacket\<close> and \<open>setDataPacket\<close>: under the named mutex, as many bytes as the region
  has are copied between the region and the packet.
\<close>

definition getDataPacket ::
  "bool \<Rightarrow> ('w, 'h) ipc_lib \<Rightarrow> 'h rtipc \<Rightarrow> 'w sys \<Rightarrow> packet res" where
  "getDataPacket nd L c s =
     bind_res (assert_res nd (dim_with_header c < word_of_nat packet_size)) (\<lambda>_.
     case access_mode c of
       PIPE_SERVER \<Rightarrow> bind_res (assert_res nd (rt_skin c = RT_ALCHEMY)) (\<lambda>_. Inr packet_clear)
     | PIPE_CLIENT \<Rightarrow> bind_res (assert_res nd (rt_skin c = POSIX)) (\<lambda>_. Inr packet_clear)
     | MQUEUE_SERVER \<Rightarrow> bind_res (assert_res nd (rt_skin c = RT_POSIX)) (\<lambda>_.
         bind_res (assert_res nd False) (\<lambda>_. Inr packet_clear))
     | MQUEUE_CLIENT \<Rightarrow> bind_res (assert_res nd (rt_skin c = RT_POSIX)) (\<lambda>_.
         bind_res (assert_res nd False) (\<lambda>_. Inr packet_clear))
     | _ \<Rightarrow> bind_res (assert_res nd (rt_skin c = POSIX)) (\<lambda>_.
         bind_res (guard_res (ipc_mutex c) Null_Deref) (\<lambda>_.
           case shared_map c of
             None \<Rightarrow> Inr packet_clear
           | Some h \<Rightarrow> (let m = lib_read L h (world s) in memcpy packet_clear m (length m)))))"

definition setDataPacket ::
  "bool \<Rightarrow> ('w, 'h) ipc_lib \<Rightarrow> 'h rtipc \<Rightarrow> packet \<Rightarrow> 'w sys \<Rightarrow> 'w sys res" where
  "setDataPacket nd L c p s =
     bind_res (assert_res nd (dim_with_header c < word_of_nat packet_size)) (\<lambda>_.
     case access_mode c of
       PIPE_SERVER \<Rightarrow> bind_res (assert_res nd (rt_skin c = RT_ALCHEMY)) (\<lambda>_. Inr s)
     | PIPE_CLIENT \<Rightarrow> bind_res (assert_res nd (rt_skin c = POSIX)) (\<lambda>_. Inr s)
     | MQUEUE_SERVER \<Rightarrow> bind_res (assert_res nd (rt_skin c = RT_POSIX)) (\<lambda>_. Inr s)
     | MQUEUE_CLIENT \<Rightarrow> bind_res (assert_res nd (rt_skin c = RT_POSIX)) (\<lambda>_. Inr s)
     | _ \<Rightarrow> bind_res (assert_res nd (rt_skin c = POSIX)) (\<lambda>_.
         bind_res (guard_res (ipc_mutex c) Null_Deref) (\<lambda>_.
           case shared_map c of
             None \<Rightarrow> Inr s
           | Some h \<Rightarrow> (let m = lib_read L h (world s) in
               bind_res (memcpy m p (length m)) (\<lambda>m'.
                 Inr (s\<lparr>world := lib_write L h m' (world s)\<rparr>))))))"

text \<open>\<open>dump\<close> fills a packet the caller points to; \<open>None\<close> is a null pointer.\<close>

definition ipc_dump ::
  "bool \<Rightarrow> ('w, 'h) ipc_lib \<Rightarrow> 'h rtipc \<Rightarrow> packet option \<Rightarrow> 'w sys \<Rightarrow> packet res" where
  "ipc_dump nd L c ptr s =
     bind_res (assert_res nd (ptr \<noteq> None)) (\<lambda>_.
     case ptr of
       None \<Rightarrow> bind_res (assert_res nd (dim_with_header c < word_of_nat packet_size)) (\<lambda>_. Inl Null_Deref)
     | Some _ \<Rightarrow> getDataPacket nd L c s)"

subsection \<open>Flags\<close>

definition isHardRT ::
  "bool \<Rightarrow> ('w, 'h) ipc_lib \<Rightarrow> 'h rtipc \<Rightarrow> 'w sys \<Rightarrow> (bool \<times> 'h rtipc) res" where
  "isHardRT nd L c s =
     (if dim_with_header c = header_dim then Inr (False, c)
      else bind_res (getDataPacket nd L c s) (\<lambda>p.
        let is_hard_rt = (rt_flag p = 1) in
        Inr (rt_flag p = 1,
          if is_hard_rt_prev c \<noteq> is_hard_rt then c\<lparr>is_hard_rt_prev := is_hard_rt\<rparr> else c)))"

definition setHardRT ::
  "bool \<Rightarrow> ('w, 'h) ipc_lib \<Rightarrow> 'h rtipc \<Rightarrow> 'w sys \<Rightarrow> (bool \<times> 'w sys) res" where
  "setHardRT nd L c s =
     (if dim_with_header c = header_dim then Inr (False, s)
      else bind_res (getDataPacket nd L c s) (\<lambda>p.
        bind_res (setDataPacket nd L c (set_rt_flag 1 p) s) (\<lambda>s'. Inr (True, s'))))"

definition setSoftRT ::
  "bool \<Rightarrow> ('w, 'h) ipc_lib \<Rightarrow> 'h rtipc \<Rightarrow> 'w sys \<Rightarrow> (bool \<times> 'w sys) res" where
  "setSoftRT nd L c s =
     (if dim_with_header c = header_dim then Inr (False, s)
      else bind_res (getDataPacket nd L c s) (\<lambda>p.
        bind_res (setDataPacket nd L c (set_rt_flag 0 p) s) (\<lambda>s'. Inr (True, s'))))"

definition isBonded ::
  "bool \<Rightarrow> ('w, 'h) ipc_lib \<Rightarrow> 'h rtipc \<Rightarrow> 'w sys \<Rightarrow> (bool \<times> 'h rtipc) res" where
  "isBonded nd L c s =
     (if dim_with_header c = header_dim then Inr (False, c)
      else bind_res (getDataPacket nd L c s) (\<lambda>p.
        let is_bonded = (bond_flag p = 1) in
        Inr (bond_flag p = 1,
          if bonded_prev c \<noteq> is_bonded then c\<lparr>bonded_prev := is_bonded\<rparr> else c)))"

definition bond ::
  "bool \<Rightarrow> ('w, 'h) ipc_lib \<Rightarrow> 'h rtipc \<Rightarrow> 'w sys \<Rightarrow> (bool \<times> 'w sys) res" where
  "bond nd L c s =
     (if dim_with_header c = header_dim then Inr (False, s)
      else bind_res (getDataPacket nd L c s) (\<lambda>p.
        if bond_flag p = 1 then Inr (False, s)
        else bind_res (setDataPacket nd L c (set_bond_flag 1 p) s) (\<lambda>s'. Inr (True, s'))))"

definition breakBond ::
  "bool \<Rightarrow> ('w, 'h) ipc_lib \<Rightarrow> 'h rtipc \<Rightarrow> 'w sys \<Rightarrow> (bool \<times> 'w sys) res" where
  "breakBond nd L c s =
     bind_res (getDataPacket nd L c s) (\<lambda>p.
     bind_res (setDataPacket nd L c (set_bond_flag 0 (set_rt_flag 0 p)) s) (\<lambda>s'. Inr (True, s')))"

subsection \<open>Writing and reading the data\<close>

text \<open>
  \<open>update\<close>: the sizes are compared as unsigned values. The time and the data are stored
  only while the channel is bonded, but the packet is written back in both cases.
\<close>

definition ipc_update ::
  "bool \<Rightarrow> ('w, 'h) ipc_lib \<Rightarrow> 'h rtipc \<Rightarrow> byte list \<Rightarrow> b64 \<Rightarrow> size_t \<Rightarrow> 'w sys
     \<Rightarrow> (error_code \<times> 'w sys) res" where
  "ipc_update nd L c ibuffer t n_bytes s =
     (let d = dim_with_header c - header_dim in
      if d \<noteq> n_bytes then Inr (UNMACTHED_DATA_DIMENSION, s)
      else if d \<le> 0 then Inr (NONE_ERROR, s)
      else bind_res (getDataPacket nd L c s) (\<lambda>p.
        bind_res (if bond_flag p = 1
            then bind_res (memcpy (data_of p) ibuffer (unat d)) (\<lambda>bs. Inr (set_data bs (set_time t p)))
            else Inr p) (\<lambda>p'.
        bind_res (setDataPacket nd L c p' s) (\<lambda>s'. Inr (NONE_ERROR, s')))))"

text \<open>The three objects \<open>flush\<close> writes through its pointers.\<close>

record flush_out =
  fo_buffer :: "byte list"
  fo_time :: b64
  fo_latency :: b64

abbreviation (input) tick_eps :: b64 where "tick_eps \<equiv> b64_lit (1 / 100000)"

text \<open>
  The watchdog of \<open>flush\<close>: a latency within range disarms it, a latency above the limit
  fires it, a latency of (nearly) zero arms it or fires it once it has been armed for longer
  than the limit. It returns the error code and the new \<open>start_watchdog_time_\<close>.
\<close>

definition flush_watchdog :: "b64 \<Rightarrow> b64 \<Rightarrow> b64 \<Rightarrow> b64 \<Rightarrow> error_code \<times> b64" where
  "flush_watchdog wd start latency flush_time =
     (if b64_less latency wd \<and> b64_less tick_eps latency then (NONE_ERROR, b64_of_int (-1))
      else if b64_less wd latency then (WATCHDOG, start)
      else if b64_less latency tick_eps then
        (if b64_eq start (b64_of_int (-1)) then (NONE_ERROR, flush_time)
         else if b64_less wd (b64_sub flush_time start) then (WATCHDOG, start)
         else (NONE_ERROR, start))
      else (NONE_ERROR, start))"

text \<open>
  \<open>flush\<close>, with the reading of the monotonic clock as an argument. The early return of a
  client whose data are too old leaves the object's times as they were.
\<close>

definition ipc_flush ::
  "bool \<Rightarrow> ('w, 'h) ipc_lib \<Rightarrow> 'h rtipc \<Rightarrow> flush_out \<Rightarrow> size_t \<Rightarrow> timespec \<Rightarrow> 'w sys
     \<Rightarrow> (error_code \<times> flush_out \<times> 'h rtipc) res" where
  "ipc_flush nd L c out n_bytes clock s =
     (let d = dim_with_header c - header_dim in
      if d \<noteq> n_bytes then Inr (UNMACTHED_DATA_DIMENSION, out, c)
      else if d \<le> 0 then Inr (NONE_ERROR, out, c)
      else bind_res (getDataPacket nd L c s) (\<lambda>p.
        bind_res (if bond_flag p = 1 then memcpy (fo_buffer out) (data_of p) (unat d)
                  else memset0 (fo_buffer out) (unat d)) (\<lambda>buf.
        let t = (if bond_flag p = 1 then time_of p else b64_lit 0);
            latency = b64_sub t (data_time_prev c);
            out1 = \<lparr>fo_buffer = buf, fo_time = t, fo_latency = latency\<rparr>;
            flush_time = timer_to_s clock
        in if isClient (access_mode c) \<and>
              b64_less (b64_mul (b64_of_int 2) (watchdog c)) (b64_abs (b64_sub flush_time t))
           then Inr (WATCHDOG, out1, c)
           else
             let (ret, start) =
               (if bond_flag p = 1
                then flush_watchdog (watchdog c) (start_watchdog_time c) latency flush_time
                else (NONE_ERROR, start_watchdog_time c));
               c' = c\<lparr>start_watchdog_time := start, data_time_prev := t, flush_time_prev := flush_time\<rparr>
             in if bond_flag p = 1 \<and> ret = WATCHDOG then
                  (if rt_flag p = 1 then
                     (if isServer (access_mode c)
                      then bind_res (memset0 buf (unat d)) (\<lambda>buf'.
                             Inr (WATCHDOG, out1\<lparr>fo_buffer := buf'\<rparr>, c'))
                      else Inr (WATCHDOG, out1, c'))
                   else Inr (NONE_ERROR, out1, c'))
                else Inr (ret, out1, c'))))"

subsection \<open>Destruction and queries\<close>

text \<open>
  The destructor: an attached object breaks a bond it finds; a server removes the memory
  and the mutex.
\<close>

definition RealTimeIPC_destroy ::
  "bool \<Rightarrow> ('w, 'h) ipc_lib \<Rightarrow> 'h rtipc \<Rightarrow> 'w sys \<Rightarrow> 'w sys res" where
  "RealTimeIPC_destroy nd L c s =
     (if header_dim < dim_with_header c then
        bind_res (isBonded nd L c s) (\<lambda>(bonded, c1).
        bind_res (if bonded then breakBond nd L c1 s else Inr (True, s)) (\<lambda>(_, s1).
        case access_mode c1 of
          PIPE_SERVER \<Rightarrow> bind_res (assert_res nd (rt_skin c1 = RT_ALCHEMY)) (\<lambda>_. Inr s1)
        | PIPE_CLIENT \<Rightarrow> bind_res (assert_res nd (rt_skin c1 = POSIX)) (\<lambda>_. Inr s1)
        | SHMEM_SERVER \<Rightarrow> bind_res (assert_res nd (rt_skin c1 = POSIX)) (\<lambda>_.
            let w1 = snd (lib_shm_remove L (ipc_name c1) (world s1));
                w2 = snd (lib_mutex_remove L (ipc_name c1) w1)
            in Inr (s1\<lparr>world := w2\<rparr>))
        | SHMEM_CLIENT \<Rightarrow> bind_res (assert_res nd (rt_skin c1 = POSIX)) (\<lambda>_. Inr s1)
        | MQUEUE_SERVER \<Rightarrow> bind_res (assert_res nd (rt_skin c1 = RT_POSIX)) (\<lambda>_.
            bind_res (assert_res nd False) (\<lambda>_. Inr s1))
        | MQUEUE_CLIENT \<Rightarrow> bind_res (assert_res nd (rt_skin c1 = RT_POSIX)) (\<lambda>_.
            bind_res (assert_res nd False) (\<lambda>_. Inr s1))))
      else Inr s)"

definition ipc_to_string :: "error_code \<Rightarrow> string" where
  "ipc_to_string err = (case err of
       NONE_ERROR \<Rightarrow> ''SHARED MEMORY NONE ERROR''
     | UNMACTHED_DATA_DIMENSION \<Rightarrow> ''SHARED MEMORY UNMATHCED DATA DIMENSION''
     | UNCORRECT_CALL \<Rightarrow> ''SHARED MEMORY UNCORRECT CALL SEQUENCE''
     | WATCHDOG \<Rightarrow> ''SHARED MEMORY WATCHDOG'')"

definition getSize :: "'h rtipc \<Rightarrow> bool \<Rightarrow> size_t" where
  "getSize c prepend_header =
     (if prepend_header then dim_with_header c else dim_with_header c - header_dim)"

definition getWatchdog :: "'h rtipc \<Rightarrow> b64" where
  "getWatchdog c = watchdog c"

subsection \<open>Texts of the pipe errors\<close>

abbreviation (input) ENOMEM :: int where "ENOMEM \<equiv> 12"
abbreviation (input) EAGAIN :: int where "EAGAIN \<equiv> 11"
abbreviation (input) EBUSY :: int where "EBUSY \<equiv> 16"
abbreviation (input) EEXIST :: int where "EEXIST \<equiv> 17"
abbreviation (input) ENODEV :: int where "ENODEV \<equiv> 19"
abbreviation (input) EIDRM :: int where "EIDRM \<equiv> 43"
abbreviation (input) ETIMEDOUT :: int where "ETIMEDOUT \<equiv> 110"

definition not_recognized :: "int \<Rightarrow> string" where
  "not_recognized val = ''value '' @ [CHR 0x27] @ string_of_int val @ '' is not recognized.''"

definition rt_pipe_create_error :: "int \<Rightarrow> string" where
  "rt_pipe_create_error val =
     (if val = - ENOMEM then ''the system fails to get memory from the main heap in order to create the pipe.''
      else if val = - EEXIST then ''is returned if the name is conflicting with an already registered pipe.''
      else if val = - ENODEV then
        ''minor is different from P_MINOR_AUTO and is not a valid minor number for the pipe special device either (i.e. /dev/rtp*).''
      else if val = - EBUSY then ''minor is already open.''
      else if val = - EPERM then
        ''this service was called from an invalid context, e.g. interrupt or non-Xenomai thread.''
      else not_recognized val)"

text \<open>\<open>EWOULDBLOCK\<close> is \<open>EAGAIN\<close> on Linux.\<close>

definition rt_pipe_read_error :: "int \<Rightarrow> string" where
  "rt_pipe_read_error val =
     (if val = - ETIMEDOUT then ''abs_timeout is reached before a message arrives..''
      else if val = - EAGAIN then
        ''abs_timeout is { .tv_sec = 0, .tv_nsec = 0 } and no message is immediately available on entry to the call''
      else if val = - EINTR then
        ''rt_task_unblock() was called for the current task before a message was available''
      else if val = - EINVAL then ''q is not a valid queue descriptor.''
      else if val = - EIDRM then
        ''q is deleted while the caller was waiting for a message. In such event, q is no more valid upon return of this service''
      else if val = - EPERM then
        ''this service should block, but was not called from a Xenomai thread''
      else not_recognized val)"

definition rt_pipe_write_error :: "int \<Rightarrow> string" where
  "rt_pipe_write_error val =
     (if val = - ENOMEM then ''not enough buffer space is available to complete the operation.''
      else if val = - EINVAL then ''mode is invalid or pipe is not a pipe descriptor''
      else if val = - EIDRM then ''pipe is a closed pipe descriptor''
      else not_recognized val)"

definition rt_pipe_delete_error :: "int \<Rightarrow> string" where
  "rt_pipe_delete_error val =
     (if val = - EINVAL then ''pipe is not a valid pipe descriptor. Abort''
      else if val = - EIDRM then ''is returned if pipe is a closed pipe descriptor. Abort''
      else if val = - EPERM then ''this service was called from an asynchronous context. Abort''
      else ''Error not tracked.'')"

subsection \<open>The attached state\<close>

text \<open>
  An object is attached when it holds the mutex and a region of the size it believes in,
  in a shared-memory mode, with a packet that a debug build accepts as well.
\<close>

definition attached :: "('w, 'h) ipc_lib \<Rightarrow> 'h rtipc \<Rightarrow> 'w sys \<Rightarrow> bool" where
  "attached L c s \<longleftrightarrow>
     (access_mode c = SHMEM_SERVER \<or> access_mode c = SHMEM_CLIENT) \<and> rt_skin c = POSIX \<and>
     ipc_mutex c \<and>
     (\<exists>h. shared_map c = Some h \<and> length (lib_read L h (world s)) = unat (dim_with_header c)) \<and>
     header_size < unat (dim_with_header c) \<and> unat (dim_with_header c) < packet_size"

text \<open>The region of an attached object.\<close>

definition region :: "('w, 'h) ipc_lib \<Rightarrow> 'h rtipc \<Rightarrow> 'w sys \<Rightarrow> byte list" where
  "region L c s = (case shared_map c of None \<Rightarrow> [] | Some h \<Rightarrow> lib_read L h (world s))"

text \<open>
  The abstract channel: the two flags, the time stamp and the data, read off the region.
\<close>

record channel =
  ch_bond :: byte
  ch_rt :: byte
  ch_time :: b64
  ch_data :: "byte list"

definition channel_of :: "byte list \<Rightarrow> channel" where
  "channel_of m = \<lparr>ch_bond = m ! 0, ch_rt = m ! 1,
     ch_time = b64_of_bytes (take 8 (drop 2 m)), ch_data = drop header_size m\<rparr>"

end
