(* ===== verification/IPC_Channel.thy ===== *)
theory IPC_Channel
  imports RealTime_IPC
begin

text \<open>
  Refinement of \<open>RealTimeIPC\<close>: on attached objects every method acts on the region as the
  corresponding operation on an abstract channel, and sequences of calls made by any number
  of objects attached to one region act as the sequence of abstract operations.
\<close>

subsection \<open>The abstract operations\<close>

datatype ipc_op = Op_Bond | Op_Break | Op_Hard | Op_Soft | Op_Update b64 "byte list"

datatype op_result = R_Bool bool | R_Code error_code

fun channel_op :: "ipc_op \<Rightarrow> channel \<Rightarrow> op_result \<times> channel" where
  "channel_op Op_Bond ch =
     (if ch_bond ch = 1 then (R_Bool False, ch) else (R_Bool True, ch\<lparr>ch_bond := 1\<rparr>))"
| "channel_op Op_Break ch = (R_Bool True, ch\<lparr>ch_bond := 0, ch_rt := 0\<rparr>)"
| "channel_op Op_Hard ch = (R_Bool True, ch\<lparr>ch_rt := 1\<rparr>)"
| "channel_op Op_Soft ch = (R_Bool True, ch\<lparr>ch_rt := 0\<rparr>)"
| "channel_op (Op_Update t bs) ch =
     (if length bs \<noteq> length (ch_data ch) then (R_Code UNMACTHED_DATA_DIMENSION, ch)
      else if ch_bond ch = 1 then (R_Code NONE_ERROR, ch\<lparr>ch_time := t, ch_data := bs\<rparr>)
      else (R_Code NONE_ERROR, ch))"

text \<open>The call of one method; \<open>update\<close> is called with the length of the buffer it gets.\<close>

definition ipc_call ::
  "bool \<Rightarrow> ('w, 'h) ipc_lib \<Rightarrow> 'h rtipc \<Rightarrow> ipc_op \<Rightarrow> 'w sys \<Rightarrow> (op_result \<times> 'w sys) res" where
  "ipc_call nd L c op s = (case op of
       Op_Bond \<Rightarrow> bind_res (bond nd L c s) (\<lambda>(b, s'). Inr (R_Bool b, s'))
     | Op_Break \<Rightarrow> bind_res (breakBond nd L c s) (\<lambda>(b, s'). Inr (R_Bool b, s'))
     | Op_Hard \<Rightarrow> bind_res (setHardRT nd L c s) (\<lambda>(b, s'). Inr (R_Bool b, s'))
     | Op_Soft \<Rightarrow> bind_res (setSoftRT nd L c s) (\<lambda>(b, s'). Inr (R_Bool b, s'))
     | Op_Update t bs \<Rightarrow>
         bind_res (ipc_update nd L c bs t (word_of_nat (length bs)) s) (\<lambda>(e, s'). Inr (R_Code e, s')))"

fun ipc_calls ::
  "bool \<Rightarrow> ('w, 'h) ipc_lib \<Rightarrow> ('h rtipc \<times> ipc_op) list \<Rightarrow> 'w sys \<Rightarrow> (op_result list \<times> 'w sys) res" where
  "ipc_calls nd L [] s = Inr ([], s)"
| "ipc_calls nd L ((c, op) # xs) s =
     bind_res (ipc_call nd L c op s) (\<lambda>(r, s1).
     bind_res (ipc_calls nd L xs s1) (\<lambda>(rs, s2). Inr (r # rs, s2)))"

fun channel_ops :: "ipc_op list \<Rightarrow> channel \<Rightarrow> op_result list \<times> channel" where
  "channel_ops [] ch = ([], ch)"
| "channel_ops (op # ops) ch =
     (case channel_op op ch of (r, ch1) \<Rightarrow>
      case channel_ops ops ch1 of (rs, ch2) \<Rightarrow> (r # rs, ch2))"

subsection \<open>Packets and regions\<close>

text \<open>The packet a region of \<open>m\<close> bytes fills: the rest of the packet is zero.\<close>

definition pkt :: "byte list \<Rightarrow> packet" where
  "pkt m = m @ replicate (packet_size - length m) 0"

lemma length_pkt: "length m \<le> packet_size \<Longrightarrow> length (pkt m) = packet_size"
  by (simp add: pkt_def)

lemma pkt_fields:
  assumes "header_size \<le> length m"
  shows "bond_flag (pkt m) = m ! 0" "rt_flag (pkt m) = m ! 1"
    "time_of (pkt m) = b64_of_bytes (take 8 (drop 2 m))"
    "data_of (pkt m) = drop header_size m @ replicate (packet_size - length m) 0"
  using assms by (auto simp: pkt_def bond_flag_def rt_flag_def time_of_def data_of_def nth_append)

lemma length_set_flags [simp]:
  "length (set_bond_flag v p) = length p" "length (set_rt_flag v p) = length p"
  by (simp_all add: set_bond_flag_def set_rt_flag_def)

lemma take_set_flags:
  assumes "header_size \<le> length m"
  shows "take (length m) (set_bond_flag v (pkt m)) = m[0 := v]"
    "take (length m) (set_rt_flag v (pkt m)) = m[1 := v]"
    "take (length m) (set_bond_flag v (set_rt_flag u (pkt m))) = m[1 := u, 0 := v]"
  using assms by (simp_all add: set_bond_flag_def set_rt_flag_def pkt_def list_update_append)

lemma channel_of_flags:
  assumes "header_size \<le> length m"
  shows "channel_of (m[0 := v]) = (channel_of m)\<lparr>ch_bond := v\<rparr>"
    "channel_of (m[1 := u]) = (channel_of m)\<lparr>ch_rt := u\<rparr>"
    "channel_of (m[1 := u, 0 := v]) = (channel_of m)\<lparr>ch_bond := v, ch_rt := u\<rparr>"
proof -
  have "0 < length m" "1 < length m" using assms by auto
  then show "channel_of (m[0 := v]) = (channel_of m)\<lparr>ch_bond := v\<rparr>"
    "channel_of (m[1 := u]) = (channel_of m)\<lparr>ch_rt := u\<rparr>"
    "channel_of (m[1 := u, 0 := v]) = (channel_of m)\<lparr>ch_bond := v, ch_rt := u\<rparr>"
    by (simp_all add: channel_of_def drop_update_cancel)
qed

text \<open>Storing time and data in the packet, seen through the region.\<close>

lemma store_data:
  assumes "header_size \<le> length m" "length m \<le> packet_size" "length bs = length m - header_size"
  shows "memcpy (data_of (pkt m)) bs (length bs) =
      Inr (bs @ replicate (packet_size - length m) 0)"
    "channel_of (take (length m) (set_data (bs @ replicate (packet_size - length m) 0) (set_time t (pkt m))))
      = (channel_of m)\<lparr>ch_time := t, ch_data := bs\<rparr>"
    "length (set_data (bs @ replicate (packet_size - length m) 0) (set_time t (pkt m))) = packet_size"
proof -
  show "memcpy (data_of (pkt m)) bs (length bs) = Inr (bs @ replicate (packet_size - length m) 0)"
    using assms by (simp add: memcpy_def pkt_fields)
  have e: "set_data (bs @ replicate (packet_size - length m) 0) (set_time t (pkt m))
      = take 2 m @ bytes_of_b64 t @ bs @ replicate (packet_size - length m) 0"
    using assms by (simp add: set_data_def set_time_def pkt_def)
  have k: "take (length m) (take 2 m @ bytes_of_b64 t @ bs @ replicate (packet_size - length m) 0)
      = take 2 m @ bytes_of_b64 t @ bs"
    using assms by simp
  show "channel_of (take (length m) (set_data (bs @ replicate (packet_size - length m) 0) (set_time t (pkt m))))
      = (channel_of m)\<lparr>ch_time := t, ch_data := bs\<rparr>"
    unfolding e k using assms by (simp add: channel_of_def nth_append)
  show "length (set_data (bs @ replicate (packet_size - length m) 0) (set_time t (pkt m))) = packet_size"
    unfolding e using assms by simp
qed

subsection \<open>Attached objects move packets without faults\<close>

lemma attachedE:
  assumes "attached L c s"
  obtains h where "shared_map c = Some h" "ipc_mutex c" "rt_skin c = POSIX"
    "access_mode c = SHMEM_SERVER \<or> access_mode c = SHMEM_CLIENT"
    "length (lib_read L h (world s)) = unat (dim_with_header c)"
    "header_size < length (lib_read L h (world s))" "length (lib_read L h (world s)) < packet_size"
    "dim_with_header c < word_of_nat packet_size" "region L c s = lib_read L h (world s)"
proof -
  obtain h where h: "shared_map c = Some h" "length (lib_read L h (world s)) = unat (dim_with_header c)"
    using assms by (auto simp: attached_def)
  have "dim_with_header c < word_of_nat packet_size"
    using assms by (simp add: attached_def word_less_nat_alt)
  then show ?thesis using assms h by (intro that[of h]) (auto simp: attached_def region_def)
qed

lemma get_attached:
  assumes "attached L c s"
  shows "getDataPacket nd L c s = Inr (pkt (region L c s))"
proof (rule attachedE[OF assms])
  fix h
  assume a: "shared_map c = Some h" "ipc_mutex c" "rt_skin c = POSIX"
    "access_mode c = SHMEM_SERVER \<or> access_mode c = SHMEM_CLIENT"
    "length (lib_read L h (world s)) < packet_size"
    "dim_with_header c < word_of_nat packet_size" "region L c s = lib_read L h (world s)"
  have "memcpy packet_clear (lib_read L h (world s)) (length (lib_read L h (world s)))
      = Inr (pkt (lib_read L h (world s)))"
    using a(5) by (simp add: memcpy_def packet_clear_def pkt_def)
  then show ?thesis using a by (auto simp: getDataPacket_def assert_res_def Let_def)
qed

lemma set_attached:
  assumes "attached L c s" "length p = packet_size"
  obtains h where "shared_map c = Some h"
    "setDataPacket nd L c p s =
       Inr (s\<lparr>world := lib_write L h (take (length (region L c s)) p) (world s)\<rparr>)"
proof (rule attachedE[OF assms(1)])
  fix h
  assume a: "shared_map c = Some h" "ipc_mutex c" "rt_skin c = POSIX"
    "access_mode c = SHMEM_SERVER \<or> access_mode c = SHMEM_CLIENT"
    "length (lib_read L h (world s)) < packet_size"
    "dim_with_header c < word_of_nat packet_size" "region L c s = lib_read L h (world s)"
  have "memcpy (lib_read L h (world s)) p (length (lib_read L h (world s)))
      = Inr (take (length (lib_read L h (world s))) p)"
    using a(5) assms(2) by (simp add: memcpy_def)
  then have "setDataPacket nd L c p s =
       Inr (s\<lparr>world := lib_write L h (take (length (region L c s)) p) (world s)\<rparr>)"
    using a by (auto simp: setDataPacket_def assert_res_def Let_def)
  then show ?thesis using a(1) by (rule that[rotated])
qed

lemma size_attached:
  assumes "attached L c s"
  shows "dim_with_header c \<noteq> header_dim"
    "dim_with_header c - header_dim = word_of_nat (length (region L c s) - header_size)"
    "unat (dim_with_header c - header_dim) = length (region L c s) - header_size"
    "header_size < length (region L c s)" "length (region L c s) < packet_size"
proof -
  show l: "header_size < length (region L c s)" "length (region L c s) < packet_size"
    using attachedE[OF assms] by metis+
  have u: "unat (dim_with_header c) = length (region L c s)"
    using attachedE[OF assms] by metis
  then show "dim_with_header c \<noteq> header_dim" using l(1) by auto
  have "header_dim \<le> dim_with_header c" using u l(1) by (simp add: word_le_nat_alt)
  then show e: "unat (dim_with_header c - header_dim) = length (region L c s) - header_size"
    using u by (simp add: unat_sub)
  then show "dim_with_header c - header_dim = word_of_nat (length (region L c s) - header_size)"
    by (metis of_nat_unat ucast_id)
qed

text \<open>
  \<open>siblings\<close>: every object attached to the region of \<open>c\<close> before a call is attached to it
  after the call, and finds the channel \<open>ch\<close> there.
\<close>

definition siblings ::
  "('w, 'h) ipc_lib \<Rightarrow> 'h rtipc \<Rightarrow> 'w sys \<Rightarrow> 'w sys \<Rightarrow> channel \<Rightarrow> bool" where
  "siblings L c s s' ch \<longleftrightarrow>
     (\<forall>c'. attached L c' s \<and> shared_map c' = shared_map c \<longrightarrow>
        attached L c' s' \<and> channel_of (region L c' s') = ch)"

lemma size_t_eq:
  "a < 2 ^ 64 \<Longrightarrow> b < 2 ^ 64 \<Longrightarrow> (word_of_nat a :: size_t) = word_of_nat b \<longleftrightarrow> a = b"
  by (auto simp: word_unat_eq_iff unsigned_of_nat take_bit_nat_eq_self)

text \<open>The length of a buffer is a \<open>size_t\<close>.\<close>

definition op_fits :: "ipc_op \<Rightarrow> bool" where
  "op_fits op = (case op of Op_Update t bs \<Rightarrow> length bs < 2 ^ 64 | _ \<Rightarrow> True)"

context interprocess
begin

text \<open>Writing a packet back leaves its first bytes in the region of every object on it.\<close>

lemma set_attached_region:
  assumes "attached L c s" "length p = packet_size"
  obtains s' where "setDataPacket nd L c p s = Inr s'"
    "region L c s' = take (length (region L c s)) p" "attached L c s'"
    "\<And>c'. attached L c' s \<Longrightarrow> shared_map c' = shared_map c \<Longrightarrow>
       attached L c' s' \<and> region L c' s' = region L c s'"
proof (rule set_attached[OF assms, of nd])
  fix h
  let ?m = "take (length (region L c s)) p"
  let ?s = "s\<lparr>world := lib_write L h ?m (world s)\<rparr>"
  assume h: "shared_map c = Some h" "setDataPacket nd L c p s = Inr ?s"
  have m: "length ?m = length (lib_read L h (world s))"
    using assms h(1) by (auto simp: attached_def region_def)
  have r: "lib_read L h (world ?s) = ?m" by (simp add: read_write[OF m])
  have other: "attached L c' ?s \<and> region L c' ?s = ?m"
    if "attached L c' s" "shared_map c' = shared_map c" for c'
    using that h(1) r m by (auto simp: attached_def region_def)
  show ?thesis using h(2) other[OF assms(1)] other by (intro that[of ?s]) auto
qed

lemma set_attached_channel:
  assumes "attached L c s" "length p = packet_size"
    and "channel_of (take (length (region L c s)) p) = ch"
  shows "\<exists>s'. setDataPacket nd L c p s = Inr s' \<and> siblings L c s s' ch"
  by (rule set_attached_region[OF assms(1,2), of nd]) (auto simp: siblings_def assms(3))

lemma update_refines:
  assumes a: "attached L c s" and fits: "op_fits (Op_Update t bs)"
  shows "\<exists>s'. ipc_call nd L c (Op_Update t bs) s =
      Inr (fst (channel_op (Op_Update t bs) (channel_of (region L c s))), s') \<and>
    siblings L c s s' (snd (channel_op (Op_Update t bs) (channel_of (region L c s))))"
proof -
  let ?m = "region L c s"
  note sz = size_attached[OF a] and get = get_attached[OF a, of nd]
  have hl: "header_size \<le> length ?m" "length ?m \<le> packet_size" using sz by auto
  have same: "siblings L c s s (channel_of ?m)" using a by (auto simp: siblings_def region_def)
  have d: "(dim_with_header c - header_dim \<noteq> word_of_nat (length bs)) =
      (length bs \<noteq> length (ch_data (channel_of ?m)))"
    using sz fits size_t_eq[of "length ?m - header_size" "length bs"]
    by (auto simp: op_fits_def channel_of_def)
  have pos: "\<not> dim_with_header c - header_dim \<le> 0" using sz by (auto simp: unat_eq_0)
  consider (bad) "length bs \<noteq> length (ch_data (channel_of ?m))"
    | (store) "length bs = length ?m - header_size" "?m ! 0 = 1"
    | (keep) "length bs = length ?m - header_size" "?m ! 0 \<noteq> 1"
    by (auto simp: channel_of_def)
  then show ?thesis
  proof cases
    case bad
    then show ?thesis using d same by (simp add: ipc_call_def ipc_update_def)
  next
    case store
    note st = store_data[OF hl store(1)]
    show ?thesis using store d pos get sz(3) st pkt_fields(1)[OF hl(1)]
        set_attached_channel[OF a st(3) st(2), of nd t]
      by (auto simp: ipc_call_def ipc_update_def channel_of_def)
  next
    case keep
    then show ?thesis using d pos get pkt_fields(1)[OF hl(1)]
        set_attached_channel[OF a length_pkt[OF hl(2)], of "channel_of ?m" nd]
      by (auto simp: ipc_call_def ipc_update_def channel_of_def pkt_def)
  qed
qed

lemma call_refines:
  assumes a: "attached L c s" and fits: "op_fits op"
  shows "\<exists>s'. ipc_call nd L c op s = Inr (fst (channel_op op (channel_of (region L c s))), s') \<and>
    siblings L c s s' (snd (channel_op op (channel_of (region L c s))))"
proof -
  let ?m = "region L c s"
  note sz = size_attached[OF a] and get = get_attached[OF a, of nd]
  have hl: "header_size \<le> length ?m" "length ?m \<le> packet_size" using sz by auto
  have lp: "length (pkt ?m) = packet_size" using hl by (simp add: length_pkt)
  have same: "siblings L c s s (channel_of ?m)" using a by (auto simp: siblings_def region_def)
  note set = set_attached_channel[OF a, of _ _ nd]
  note fl = pkt_fields[OF hl(1)] take_set_flags[OF hl(1)] channel_of_flags[OF hl(1)]
  show ?thesis
  proof (cases op)
    case Op_Bond
    show ?thesis
    proof (cases "?m ! 0 = 1")
      case True
      then show ?thesis using Op_Bond get sz same fl
        by (simp add: ipc_call_def bond_def channel_of_def)
    next
      case False
      then show ?thesis using Op_Bond get sz fl lp set[of "set_bond_flag 1 (pkt ?m)"]
        by (auto simp: ipc_call_def bond_def channel_of_def)
    qed
  next
    case Op_Break
    then show ?thesis using get sz fl lp set[of "set_bond_flag 0 (set_rt_flag 0 (pkt ?m))"]
      by (auto simp: ipc_call_def breakBond_def)
  next
    case Op_Hard
    then show ?thesis using get sz fl lp set[of "set_rt_flag 1 (pkt ?m)"]
      by (auto simp: ipc_call_def setHardRT_def)
  next
    case Op_Soft
    then show ?thesis using get sz fl lp set[of "set_rt_flag 0 (pkt ?m)"]
      by (auto simp: ipc_call_def setSoftRT_def)
  next
    case (Op_Update t bs)
    then show ?thesis using update_refines[OF a] fits by simp
  qed
qed

text \<open>A sequence of calls: \<open>c\<close> stands for any object attached to the common region.\<close>

lemma calls_refine:
  assumes "\<forall>x\<in>set xs. attached L (fst x) s \<and> shared_map (fst x) = shared_map c \<and> op_fits (snd x)"
    and "attached L c s"
  shows "\<exists>s'. ipc_calls nd L xs s =
      Inr (fst (channel_ops (map snd xs) (channel_of (region L c s))), s') \<and>
    siblings L c s s' (snd (channel_ops (map snd xs) (channel_of (region L c s))))"
  using assms
proof (induction xs arbitrary: s)
  case Nil
  then show ?case by (auto simp: siblings_def region_def)
next
  case (Cons x xs)
  obtain c1 op where x: "x = (c1, op)" by force
  have c1: "attached L c1 s" "shared_map c1 = shared_map c" "op_fits op"
    and r: "region L c1 s = region L c s"
    using Cons.prems(1) x by (auto simp: region_def)
  obtain s1 where s1: "ipc_call nd L c1 op s =
        Inr (fst (channel_op op (channel_of (region L c s))), s1)"
    "siblings L c s s1 (snd (channel_op op (channel_of (region L c s))))"
    using call_refines[OF c1(1,3), of nd] c1(2) r by (auto simp: siblings_def)
  have c: "attached L c s1"
    "channel_of (region L c s1) = snd (channel_op op (channel_of (region L c s)))"
    using s1(2) Cons.prems(2) by (auto simp: siblings_def)
  have "\<forall>x\<in>set xs. attached L (fst x) s1 \<and> shared_map (fst x) = shared_map c \<and> op_fits (snd x)"
    using Cons.prems(1) s1(2) by (auto simp: siblings_def)
  from Cons.IH[OF this c(1)] s1 c(2) x show ?case
    by (force simp: siblings_def split: prod.splits)
qed

end

subsection \<open>Sequences of calls\<close>

text \<open>C2: Any sequence of bond, breakBond, setHardRT, setSoftRT and update calls made by any mix
  of objects attached to one shared region (servers and clients, debug or release build)
  returns, call by call, what the abstract channel returns, faults never, and leaves every
  object attached with the region holding the abstract channel's result.\<close>

theorem ipc_calls_refine:
  assumes "interprocess L"
    and "\<forall>x\<in>set xs. attached L (fst x) s \<and> shared_map (fst x) = Some h \<and> op_fits (snd x)"
    and "attached L c s" "shared_map c = Some h"
  shows "\<exists>s'. ipc_calls nd L xs s =
      Inr (fst (channel_ops (map snd xs) (channel_of (region L c s))), s') \<and>
    attached L c s' \<and>
    channel_of (region L c s') = snd (channel_ops (map snd xs) (channel_of (region L c s)))"
  using interprocess.calls_refine[OF assms(1), of xs s c nd] assms(2-4)
  by (auto simp: siblings_def)

lemma channel_ops_unbonded:
  "ch_bond ch \<noteq> 1 \<Longrightarrow> Op_Bond \<notin> set ops \<Longrightarrow>
     ch_bond (snd (channel_ops ops ch)) \<noteq> 1 \<and>
     ch_time (snd (channel_ops ops ch)) = ch_time ch \<and> ch_data (snd (channel_ops ops ch)) = ch_data ch"
proof (induction ops arbitrary: ch)
  case (Cons op ops)
  have "ch_bond (snd (channel_op op ch)) \<noteq> 1 \<and>
      ch_time (snd (channel_op op ch)) = ch_time ch \<and> ch_data (snd (channel_op op ch)) = ch_data ch"
    using Cons.prems by (cases op) auto
  with Cons.IH[of "snd (channel_op op ch)"] Cons.prems(2) show ?case
    by (auto split: prod.splits)
qed auto

text \<open>A world with one region of twelve bytes, two objects on it.\<close>

definition demo_world :: "mem_world sys" where
  "demo_world = \<lparr>world = mem_empty\<lparr>mw_data := (\<lambda>_. replicate 12 0)\<rparr>, umask = 18\<rparr>"

definition demo_end :: "access_mode \<Rightarrow> nat rtipc" where
  "demo_end m = \<lparr>access_mode = m, rt_skin = POSIX, operational_time = b64_lit 0,
     watchdog = b64_of_int 1, ipc_name = ''x'', dim_with_header = 12, shared_memory = Some 0,
     shared_map = Some 0, ipc_mutex = True, start_watchdog_time = b64_of_int (-1),
     data_time_prev = b64_of_int 0, flush_time_prev = b64_of_int 0, bond_cnt = 0,
     bonded_prev = False, is_hard_rt_prev = False\<rparr>"

lemma demo_attached:
  "m = SHMEM_SERVER \<or> m = SHMEM_CLIENT \<Longrightarrow> attached mem_lib (demo_end m) demo_world"
  "shared_map (demo_end m) = Some 0" "region mem_lib (demo_end m) demo_world = replicate 12 0"
  by (auto simp: attached_def demo_end_def demo_world_def mem_lib_def region_def mem_empty_def)

lemma demo_channel:
  "channel_of (replicate 12 0) = \<lparr>ch_bond = 0, ch_rt = 0, ch_time = 0, ch_data = [0, 0]\<rparr>"
  by (simp add: channel_of_def numeral_2_eq_2)

lemma ipc_calls_refine_witness:
  "\<exists>s'. ipc_calls False mem_lib
        [(demo_end SHMEM_CLIENT, Op_Bond), (demo_end SHMEM_CLIENT, Op_Hard),
         (demo_end SHMEM_CLIENT, Op_Update 7 [3, 4]), (demo_end SHMEM_SERVER, Op_Bond),
         (demo_end SHMEM_SERVER, Op_Soft)] demo_world =
      Inr ([R_Bool True, R_Bool True, R_Code NONE_ERROR, R_Bool False, R_Bool True], s') \<and>
    attached mem_lib (demo_end SHMEM_SERVER) s' \<and>
    channel_of (region mem_lib (demo_end SHMEM_SERVER) s') =
      \<lparr>ch_bond = 1, ch_rt = 0, ch_time = 7, ch_data = [3, 4]\<rparr>"
  using ipc_calls_refine[OF mem.interprocess_axioms,
      of "[(demo_end SHMEM_CLIENT, Op_Bond), (demo_end SHMEM_CLIENT, Op_Hard),
         (demo_end SHMEM_CLIENT, Op_Update 7 [3, 4]), (demo_end SHMEM_SERVER, Op_Bond),
         (demo_end SHMEM_SERVER, Op_Soft)]" demo_world 0 "demo_end SHMEM_SERVER" False]
  by (simp add: demo_attached demo_channel op_fits_def)

text \<open>While nobody bonds, nothing moves: a sequence of calls without bond on an unbonded channel,
  updates included, leaves it unbonded with its time stamp and its data as they
  were.\<close>

theorem ipc_calls_unbonded:
  assumes "interprocess L"
    and "\<forall>x\<in>set xs. attached L (fst x) s \<and> shared_map (fst x) = shared_map c \<and> op_fits (snd x)"
    and "attached L c s" "ch_bond (channel_of (region L c s)) \<noteq> 1" "Op_Bond \<notin> snd ` set xs"
  shows "\<exists>rs s'. ipc_calls nd L xs s = Inr (rs, s') \<and>
    ch_bond (channel_of (region L c s')) \<noteq> 1 \<and>
    ch_time (channel_of (region L c s')) = ch_time (channel_of (region L c s)) \<and>
    ch_data (channel_of (region L c s')) = ch_data (channel_of (region L c s))"
  using interprocess.calls_refine[OF assms(1,2,3), of nd]
    channel_ops_unbonded[OF assms(4), of "map snd xs"] assms(3,5)
  by (auto simp: siblings_def)

lemma ipc_calls_unbonded_witness:
  "\<exists>rs s'. ipc_calls True mem_lib [(demo_end SHMEM_SERVER, Op_Update 7 [3, 4])] demo_world
      = Inr (rs, s') \<and> ch_data (channel_of (region mem_lib (demo_end SHMEM_CLIENT) s')) = [0, 0]"
  using ipc_calls_unbonded[OF mem.interprocess_axioms,
      of "[(demo_end SHMEM_SERVER, Op_Update 7 [3, 4])]" demo_world "demo_end SHMEM_CLIENT" True]
  by (auto simp: demo_attached demo_channel op_fits_def)

end
