(* ===== verification/IPC_Flush.thy ===== *)
theory IPC_Flush
  imports IPC_Channel
begin

text \<open>
  The reading side of \<open>RealTimeIPC\<close>: \<open>flush\<close> on an attached object as a function of the
  channel, what it does with the caller's buffer, and when its watchdog fires.
\<close>

subsection \<open>flush as a function of the channel\<close>

definition flush_spec ::
  "channel \<Rightarrow> 'h rtipc \<Rightarrow> timespec \<Rightarrow> error_code \<times> flush_out \<times> 'h rtipc" where
  "flush_spec ch c clock =
     (let bonded = (ch_bond ch = 1);
          zeros = replicate (length (ch_data ch)) 0;
          t = (if bonded then ch_time ch else b64_lit 0);
          latency = b64_sub t (data_time_prev c);
          now = timer_to_s clock;
          buf = (if bonded then ch_data ch else zeros);
          (alarm, start) = (if bonded then flush_watchdog (watchdog c) (start_watchdog_time c) latency now
                            else (NONE_ERROR, start_watchdog_time c));
          c' = c\<lparr>start_watchdog_time := start, data_time_prev := t, flush_time_prev := now\<rparr>
      in if isClient (access_mode c) \<and> b64_less (b64_mul (b64_of_int 2) (watchdog c)) (b64_abs (b64_sub now t))
         then (WATCHDOG, \<lparr>fo_buffer = buf, fo_time = t, fo_latency = latency\<rparr>, c)
         else if alarm = WATCHDOG \<and> ch_rt ch = 1
         then (WATCHDOG, \<lparr>fo_buffer = (if isServer (access_mode c) then zeros else buf),
                 fo_time = t, fo_latency = latency\<rparr>, c')
         else (NONE_ERROR, \<lparr>fo_buffer = buf, fo_time = t, fo_latency = latency\<rparr>, c'))"

lemma flush_watchdog_codes: "fst (flush_watchdog wd st l now) = NONE_ERROR \<or> fst (flush_watchdog wd st l now) = WATCHDOG"
  by (simp add: flush_watchdog_def)

text \<open>The caller passes a buffer of the size of the data, and says so.\<close>

definition flush_args :: "('w, 'h) ipc_lib \<Rightarrow> 'h rtipc \<Rightarrow> flush_out \<Rightarrow> size_t \<Rightarrow> 'w sys \<Rightarrow> bool" where
  "flush_args L c out n s \<longleftrightarrow> attached L c s \<and>
     length (fo_buffer out) = length (ch_data (channel_of (region L c s))) \<and>
     n = word_of_nat (length (fo_buffer out))"

lemma flush_refines:
  assumes "flush_args L c out n s"
  shows "ipc_flush nd L c out n clock s = Inr (flush_spec (channel_of (region L c s)) c clock)"
proof -
  let ?m = "region L c s"
  have a: "attached L c s" and lb: "length (fo_buffer out) = length ?m - header_size"
    and n: "n = word_of_nat (length ?m - header_size)"
    using assms by (auto simp: flush_args_def channel_of_def)
  note sz = size_attached[OF a] and get = get_attached[OF a, of nd]
  have hl: "header_size \<le> length ?m" using sz by auto
  have pos: "\<not> dim_with_header c - header_dim \<le> 0" using sz by (auto simp: unat_eq_0)
  have cp: "memcpy (fo_buffer out) (data_of (pkt ?m)) (unat (dim_with_header c - header_dim)) = Inr (drop 10 ?m)"
    using lb sz(3) by (simp add: memcpy_def pkt_fields(4)[OF hl])
  have z: "memset0 b (unat (dim_with_header c - header_dim)) = Inr (replicate (length ?m - 10) 0)"
    if "length b = length ?m - 10" for b
    using that sz(3) by (simp add: memset0_def)
  obtain al st where w: "flush_watchdog (watchdog c) (start_watchdog_time c)
      (b64_sub (time_of (pkt ?m)) (data_time_prev c)) (timer_to_s clock) = (al, st)" by force
  show ?thesis
  proof (cases "?m ! 0 = 1")
    case True
    then show ?thesis
      using flush_watchdog_codes[of "watchdog c" "start_watchdog_time c"
          "b64_sub (time_of (pkt ?m)) (data_time_prev c)" "timer_to_s clock"]
      using n pos get cp z[of "drop 10 ?m"] sz(2) w
      by (auto simp: ipc_flush_def flush_spec_def pkt_fields(1-3)[OF hl] channel_of_def Let_def)
  next
    case False
    then show ?thesis using n pos get z[OF lb] sz(2)
      by (auto simp: ipc_flush_def flush_spec_def pkt_fields(1-3)[OF hl] channel_of_def Let_def)
  qed
qed

text \<open>A size that is not that of the region's data is refused, and nothing is written.\<close>

lemma flush_wrong_size:
  assumes "attached L c s" "unat n \<noteq> length (ch_data (channel_of (region L c s)))"
  shows "ipc_flush nd L c out n clock s = Inr (UNMACTHED_DATA_DIMENSION, out, c)"
proof -
  have "dim_with_header c - header_dim \<noteq> n"
    using size_attached(3)[OF assms(1)] assms(2) by (auto simp: channel_of_def)
  then show ?thesis by (simp add: ipc_flush_def Let_def)
qed

lemma attached_times [simp]:
  "attached L (c\<lparr>start_watchdog_time := a\<rparr>) s = attached L c s"
  "attached L (c\<lparr>data_time_prev := b\<rparr>) s = attached L c s"
  "attached L (c\<lparr>flush_time_prev := d\<rparr>) s = attached L c s"
  by (simp_all add: attached_def)

lemma flush_spec_server:
  assumes "flush_spec ch c clock = (code, out', c')" "access_mode c = SHMEM_SERVER"
  shows "code = NONE_ERROR \<or> code = WATCHDOG \<and> ch_bond ch = 1 \<and> ch_rt ch = 1"
    "fo_buffer out' = (if ch_bond ch = 1 \<and> code = NONE_ERROR then ch_data ch
                        else replicate (length (ch_data ch)) 0)"
    "attached L c' s = attached L c s"
  using assms by (auto simp: flush_spec_def Let_def isClient_def isServer_def split: prod.splits if_splits)

subsection \<open>Exact values\<close>

text \<open>A finite value is one the format holds; small integers are handled exactly.\<close>

lemma fp_of_Fin:
  assumes "fp_of t = Fin x"
  shows "fits64 x" "rnd x = x"
proof -
  have b: "0 \<le> b64_bits t" "b64_bits t < inf_bits" "\<bar>x\<bar> = mag (b64_bits t)"
    using assms mag_nonneg[of "b64_bits t"] b64_bits_range[of t]
    by (auto simp: fp_of_def Let_def split: if_splits)
  then show "fits64 x" by (simp add: fits64_def round_raw_mag)
  show "rnd x = x" using b by (intro rnd_exact) (auto simp: representable_def)
qed

lemma fits64_int: "\<bar>k\<bar> \<le> 2 ^ 53 \<Longrightarrow> fits64 (of_int k)"
  using of_int_abs_le[of k "2 ^ 53"] by (intro fits64_small) simp

lemma b64_int_ops:
  assumes "fp_of a = Fin (of_int x)" "fp_of b = Fin (of_int y)"
  shows "\<bar>x - y\<bar> \<le> 2 ^ 53 \<Longrightarrow> fp_of (b64_sub a b) = Fin (of_int (x - y))"
    "\<bar>x * y\<bar> \<le> 2 ^ 53 \<Longrightarrow> fp_of (b64_mul a b) = Fin (of_int (x * y))"
  using b64_sub_val[OF assms] b64_mul_val[OF assms] fits64_int[of "x - y"] fits64_int[of "x * y"]
    rnd_of_int[of "x - y"] rnd_of_int[of "x * y"] by simp_all

lemma timer_to_s_whole:
  assumes "\<bar>k\<bar> < 2 ^ 53" shows "fp_of (timer_to_s \<lparr>tv_sec = k, tv_nsec = 0\<rparr>) = Fin (of_int k)"
  using timer_to_s_val[of "\<lparr>tv_sec = k, tv_nsec = 0\<rparr>"] assms rnd_of_int[of k]
  by (simp add: normalised_def secs_of_def)

lemma fp_of_zero: "fp_of (b64_lit 0) = Fin 0" "fp_of (b64_of_int 0) = Fin 0"
  using b64_lit_int[of 0] b64_of_int_val[of 0] by simp_all

lemma b64_sub_zero: "fp_of t = Fin x \<Longrightarrow> fp_of z = Fin 0 \<Longrightarrow> fp_of (b64_sub t z) = Fin x"
  using b64_sub_val[of t x z 0] fp_of_Fin[of t x] by simp

lemma fp_of_nan: "fp_of b64_nan = NaN"
  using mk_b64_fields[of "2047 * 2 ^ 52 + 2 ^ 51" True] by (simp add: b64_nan_def fp_of_def)

lemma b64_sub_self: "fp_of t = Fin x \<Longrightarrow> fp_of u = Fin x \<Longrightarrow> fp_of (b64_sub t u) = Fin 0"
  using b64_sub_val[of t x u x] fits64_int[of 0] by simp

subsection \<open>What the reader finds in its buffer\<close>

text \<open>C8: On an attached server, called with a buffer and the number of its bytes, flush faults
  never. When that number is not the size of the region's data it returns
  UNMACTHED_DATA_DIMENSION and changes neither the buffer nor the object. Otherwise it
  returns NONE_ERROR or WATCHDOG, WATCHDOG only on a bonded hard real-time channel; the
  buffer then holds the channel's data exactly when the channel is bonded and no alarm is
  returned, and is zeroed in every other case.\<close>

theorem ipc_flush_safe_buffer:
  assumes "attached L c s" "access_mode c = SHMEM_SERVER" "length (fo_buffer out) = unat n"
  shows "let ch = channel_of (region L c s) in
    if unat n \<noteq> length (ch_data ch)
    then ipc_flush nd L c out n clock s = Inr (UNMACTHED_DATA_DIMENSION, out, c)
    else \<exists>code out' c'. ipc_flush nd L c out n clock s = Inr (code, out', c') \<and>
      (code = NONE_ERROR \<or> code = WATCHDOG \<and> ch_bond ch = 1 \<and> ch_rt ch = 1) \<and>
      fo_buffer out' = (if ch_bond ch = 1 \<and> code = NONE_ERROR then ch_data ch
                        else replicate (length (ch_data ch)) 0) \<and>
      attached L c' s"
proof (cases "unat n = length (ch_data (channel_of (region L c s)))")
  case False
  then show ?thesis using flush_wrong_size[OF assms(1)] by (simp add: Let_def)
next
  case True
  obtain code out' c' where e: "flush_spec (channel_of (region L c s)) c clock = (code, out', c')"
    using prod_cases3 by blast
  have "n = word_of_nat (unat n)" by simp
  then have "flush_args L c out n s" using assms True unfolding flush_args_def by metis
  then have "ipc_flush nd L c out n clock s = Inr (code, out', c')"
    by (simp add: flush_refines e)
  then show ?thesis
    using flush_spec_server[OF e assms(2)] assms(1) True
    by (simp only: Let_def simp_thms if_False)
      (intro exI[of _ code] exI[of _ out'] exI[of _ c'], auto)
qed

definition demo_out :: flush_out where
  "demo_out = \<lparr>fo_buffer = [9, 9], fo_time = 0, fo_latency = 0\<rparr>"

text \<open>The demonstration region with a bonded hard real-time writer that stored \<open>[3, 4]\<close>.\<close>

definition demo_bonded :: "b64 \<Rightarrow> mem_world sys" where
  "demo_bonded t = \<lparr>world = mem_empty\<lparr>mw_data := (\<lambda>_. [1, 1] @ bytes_of_b64 t @ [3, 4])\<rparr>, umask = 18\<rparr>"

lemma demo_bonded_channel:
  "m = SHMEM_SERVER \<or> m = SHMEM_CLIENT \<Longrightarrow> attached mem_lib (demo_end m) (demo_bonded t)"
  "channel_of (region mem_lib (demo_end m) (demo_bonded t))
     = \<lparr>ch_bond = 1, ch_rt = 1, ch_time = t, ch_data = [3, 4]\<rparr>"
  by (auto simp: attached_def demo_end_def demo_bonded_def mem_lib_def region_def mem_empty_def
      channel_of_def)

lemma demo_watchdog: "watchdog (demo_end m) = b64_of_int 1"
  "start_watchdog_time (demo_end m) = b64_of_int (-1)"
  by (simp_all add: demo_end_def)

lemma demo_mode [simp]: "access_mode (demo_end m) = m"
  by (simp add: demo_end_def)

lemma demo_flush_args:
  "m = SHMEM_SERVER \<or> m = SHMEM_CLIENT \<Longrightarrow> flush_args mem_lib (demo_end m) demo_out 2 (demo_bonded t)"
  by (auto simp: flush_args_def demo_bonded_channel demo_out_def)

lemma ipc_flush_safe_buffer_witness:
  "\<exists>code out' c'. ipc_flush True mem_lib (demo_end SHMEM_SERVER) demo_out 2
      \<lparr>tv_sec = 5, tv_nsec = 0\<rparr> (demo_bonded (b64_lit 0)) = Inr (code, out', c') \<and>
    fo_buffer out' = (if code = NONE_ERROR then [3, 4] else [0, 0])"
proof -
  have n: "unat (2 :: size_t) = 2" by simp
  show ?thesis
    using ipc_flush_safe_buffer[of mem_lib "demo_end SHMEM_SERVER" "demo_bonded (b64_lit 0)" demo_out 2
        True "\<lparr>tv_sec = 5, tv_nsec = 0\<rparr>"] demo_bonded_channel(1)[of SHMEM_SERVER "b64_lit 0"]
    unfolding demo_bonded_channel(2) n by (auto simp: demo_out_def Let_def)
qed

text \<open>A client whose clock is further than twice the watchdog from the time stamp it reads gets
  WATCHDOG and is left as it was, times included, but the stored data have been copied into
  its buffer all the same.\<close>

theorem ipc_flush_stale_client:
  assumes "flush_args L c out n s" "access_mode c = SHMEM_CLIENT"
    and "ch_bond (channel_of (region L c s)) = 1"
    and "b64_less (b64_mul (b64_of_int 2) (watchdog c))
           (b64_abs (b64_sub (timer_to_s clock) (ch_time (channel_of (region L c s)))))"
  shows "\<exists>out'. ipc_flush nd L c out n clock s = Inr (WATCHDOG, out', c) \<and>
    fo_buffer out' = ch_data (channel_of (region L c s))"
  using assms(2-) by (simp add: flush_refines[OF assms(1)] flush_spec_def Let_def isClient_def
      split: prod.splits)

lemma ipc_flush_stale_client_witness:
  "\<exists>out'. ipc_flush False mem_lib (demo_end SHMEM_CLIENT) demo_out 2 \<lparr>tv_sec = 5, tv_nsec = 0\<rparr>
     (demo_bonded (b64_of_int 1)) = Inr (WATCHDOG, out', demo_end SHMEM_CLIENT) \<and>
     fo_buffer out' = [3, 4]"
proof -
  have "fp_of (b64_mul (b64_of_int 2) (b64_of_int 1)) = Fin 2"
    using b64_int_ops(2)[OF b64_of_int_val b64_of_int_val, of 2 1] by simp
  moreover have "fp_of (b64_abs (b64_sub (timer_to_s \<lparr>tv_sec = 5, tv_nsec = 0\<rparr>) (b64_of_int 1))) = Fin 4"
    using b64_int_ops(1)[OF timer_to_s_whole b64_of_int_val, of 5 1] by (simp add: fp_of_abs)
  ultimately have "b64_less (b64_mul (b64_of_int 2) (b64_of_int 1))
      (b64_abs (b64_sub (timer_to_s \<lparr>tv_sec = 5, tv_nsec = 0\<rparr>) (b64_of_int 1)))"
    by (simp add: b64_less_val)
  then show ?thesis
    using ipc_flush_stale_client[of mem_lib "demo_end SHMEM_CLIENT" demo_out 2 "demo_bonded (b64_of_int 1)"
        "\<lparr>tv_sec = 5, tv_nsec = 0\<rparr>" False] demo_flush_args[of SHMEM_CLIENT "b64_of_int 1"]
    by (simp add: demo_bonded_channel demo_watchdog)
qed

subsection \<open>The watchdog\<close>

text \<open>An object that flushed an unbonded channel keeps its place, with the time zero.\<close>

lemma flush_spec_unbonded:
  assumes "ch_bond ch \<noteq> 1" "access_mode c = SHMEM_SERVER"
  obtains out' where "flush_spec ch c clock = (NONE_ERROR, out',
      c\<lparr>data_time_prev := b64_lit 0, flush_time_prev := timer_to_s clock\<rparr>)"
    "length (fo_buffer out') = length (ch_data ch)"
  using assms by (auto simp: flush_spec_def Let_def isClient_def)

lemma flush_spec_late:
  assumes "access_mode c = SHMEM_SERVER" "ch_bond ch = 1" "ch_rt ch = 1"
    and "fp_of (ch_time ch) = Fin x" "fp_of (data_time_prev c) = Fin 0"
    and "fp_of (watchdog c) = Fin w" "w < x"
  shows "\<exists>out' c'. flush_spec ch c clock = (WATCHDOG, out', c') \<and>
    fo_buffer out' = replicate (length (ch_data ch)) 0"
proof -
  have l: "fp_of (b64_sub (ch_time ch) (data_time_prev c)) = Fin x"
    by (rule b64_sub_zero[OF assms(4,5)])
  then show ?thesis using assms
    by (auto simp: flush_spec_def Let_def flush_watchdog_def b64_less_val[OF l assms(6)]
        b64_less_val[OF assms(6) l] isClient_def isServer_def)
qed

text \<open>C36: The first flush of a server after a flush that found the channel unbonded compares the
  new time stamp with zero: when a writer has bonded in hard real time meanwhile and stored
  fresh data with any time stamp above the watchdog period, that flush raises WATCHDOG and
  hands out a zeroed buffer, however recent the data are.\<close>

theorem ipc_flush_first_after_bond:
  assumes "flush_args L c out n s1" "access_mode c = SHMEM_SERVER"
    and "ch_bond (channel_of (region L c s1)) \<noteq> 1" "flush_args L c out n s2"
    and "ch_bond (channel_of (region L c s2)) = 1" "ch_rt (channel_of (region L c s2)) = 1"
    and "fp_of (ch_time (channel_of (region L c s2))) = Fin x" "fp_of (watchdog c) = Fin w" "w < x"
  shows "\<exists>out1 c1 out2 c2. ipc_flush nd L c out n clock1 s1 = Inr (NONE_ERROR, out1, c1) \<and>
    ipc_flush nd L c1 out1 n clock2 s2 = Inr (WATCHDOG, out2, c2) \<and>
    fo_buffer out2 = replicate (length (ch_data (channel_of (region L c s2)))) 0"
proof (rule flush_spec_unbonded[OF assms(3,2), of clock1])
  let ?c1 = "c\<lparr>data_time_prev := b64_lit 0, flush_time_prev := timer_to_s clock1\<rparr>"
  fix out1
  assume f1: "flush_spec (channel_of (region L c s1)) c clock1 = (NONE_ERROR, out1, ?c1)"
    and l1: "length (fo_buffer out1) = length (ch_data (channel_of (region L c s1)))"
  have r: "region L ?c1 s2 = region L c s2" by (simp add: region_def)
  have "flush_args L ?c1 out1 n s2"
    using assms(1,4) l1 by (auto simp: flush_args_def r)
  from flush_refines[OF this, of nd clock2]
  show ?thesis
    using flush_spec_late[of ?c1 "channel_of (region L c s2)" x w clock2] assms(2,5-9) fp_of_zero(1)
      flush_refines[OF assms(1), of nd clock1] f1 r by auto
qed

lemma ipc_flush_first_after_bond_witness:
  "\<exists>out1 c1 out2 c2. ipc_flush True mem_lib (demo_end SHMEM_SERVER) demo_out 2
      \<lparr>tv_sec = 4, tv_nsec = 0\<rparr> demo_world = Inr (NONE_ERROR, out1, c1) \<and>
    ipc_flush True mem_lib c1 out1 2 \<lparr>tv_sec = 5, tv_nsec = 0\<rparr> (demo_bonded (b64_of_int 5))
      = Inr (WATCHDOG, out2, c2) \<and> fo_buffer out2 = [0, 0]"
proof -
  have "flush_args mem_lib (demo_end SHMEM_SERVER) demo_out 2 demo_world"
    by (simp add: flush_args_def demo_attached demo_channel demo_out_def)
  then show ?thesis
    using ipc_flush_first_after_bond[of mem_lib "demo_end SHMEM_SERVER" demo_out 2 demo_world
        "demo_bonded (b64_of_int 5)" 5 1 True "\<lparr>tv_sec = 4, tv_nsec = 0\<rparr>" "\<lparr>tv_sec = 5, tv_nsec = 0\<rparr>"]
      demo_flush_args[of SHMEM_SERVER "b64_of_int 5"] b64_of_int_val[of 5] b64_of_int_val[of 1]
    by (simp add: demo_bonded_channel demo_watchdog demo_attached demo_channel numeral_2_eq_2)
qed

text \<open>A time stamp that is not a number switches the watchdog off: a server then returns
  NONE_ERROR and the stored data whatever the clock says, in hard real time too.\<close>

theorem ipc_flush_nan_time:
  assumes "flush_args L c out n s" "access_mode c = SHMEM_SERVER"
    and "ch_bond (channel_of (region L c s)) = 1" "fp_of (ch_time (channel_of (region L c s))) = NaN"
  shows "\<exists>out' c'. ipc_flush nd L c out n clock s = Inr (NONE_ERROR, out', c') \<and>
    fo_buffer out' = ch_data (channel_of (region L c s)) \<and>
    start_watchdog_time c' = start_watchdog_time c"
proof -
  have "fp_of (b64_sub (ch_time (channel_of (region L c s))) (data_time_prev c)) = NaN"
    using assms(4) fp_of_nan by (simp add: b64_sub_def b64_add_def)
  then show ?thesis using assms(2,3)
    by (simp add: flush_refines[OF assms(1)] flush_spec_def Let_def flush_watchdog_def isClient_def
        b64_less_nan_left b64_less_nan_right)
qed

lemma ipc_flush_nan_time_witness:
  "\<exists>out' c'. ipc_flush True mem_lib (demo_end SHMEM_SERVER) demo_out 2 \<lparr>tv_sec = 900, tv_nsec = 0\<rparr>
     (demo_bonded b64_nan) = Inr (NONE_ERROR, out', c') \<and> fo_buffer out' = [3, 4]"
  using ipc_flush_nan_time[of mem_lib "demo_end SHMEM_SERVER" demo_out 2 "demo_bonded b64_nan" True
      "\<lparr>tv_sec = 900, tv_nsec = 0\<rparr>"] demo_flush_args[of SHMEM_SERVER b64_nan] fp_of_nan
  by (auto simp: demo_bonded_channel)

subsection \<open>A writer that stops\<close>

text \<open>Successive flushes into one buffer: the code and the buffer after each.\<close>

fun ipc_flushes ::
  "bool \<Rightarrow> ('w, 'h) ipc_lib \<Rightarrow> 'h rtipc \<Rightarrow> flush_out \<Rightarrow> size_t \<Rightarrow> timespec list \<Rightarrow> 'w sys
     \<Rightarrow> (error_code \<times> byte list) list res" where
  "ipc_flushes nd L c out n [] s = Inr []"
| "ipc_flushes nd L c out n (k # ks) s =
     bind_res (ipc_flush nd L c out n k s) (\<lambda>(e, out1, c1).
     bind_res (ipc_flushes nd L c1 out1 n ks s) (\<lambda>rs. Inr ((e, fo_buffer out1) # rs)))"

lemma secs_of_close:
  assumes "normalised k" "0 \<le> tv_sec k" "tv_sec k < 2 ^ 23 - 1"
  shows "\<bar>secs_of rnd (tv_sec k) (tv_nsec k) - of_int (total_ns k) / 10 ^ 9\<bar> \<le> 2 powi (- 31) + 2 powi (- 54)"
    "0 \<le> secs_of rnd (tv_sec k) (tv_nsec k)" "secs_of rnd (tv_sec k) (tv_nsec k) < 2 ^ 23"
proof -
  have s: "(of_int (tv_sec k + 1) :: rat) < of_int (2 ^ 23)" using assms(3) by (simp only: of_int_less_iff)
  have n: "0 \<le> tv_nsec k" "tv_nsec k < 10 ^ 9" using assms(1) by (auto simp: normalised_def)
  have t: "of_int (total_ns k) / 10 ^ 9 = (of_int (tv_sec k) + of_int (tv_nsec k) / 10 ^ 9 :: rat)"
    by (simp add: total_ns_def add_divide_distrib)
  show "\<bar>secs_of rnd (tv_sec k) (tv_nsec k) - of_int (total_ns k) / 10 ^ 9\<bar> \<le> 2 powi (- 31) + 2 powi (- 54)"
    unfolding t using b64.secs_error[of "tv_nsec k" "tv_sec k" 22] n assms(2) s by simp
  have r: "of_int (tv_sec k) \<le> secs_of rnd (tv_sec k) (tv_nsec k)"
    "secs_of rnd (tv_sec k) (tv_nsec k) \<le> of_int (tv_sec k + 1)"
    using b64.secs_range[OF n, of "tv_sec k"] assms(2,3) by auto
  then show "secs_of rnd (tv_sec k) (tv_nsec k) < 2 ^ 23" using s by simp
  show "0 \<le> secs_of rnd (tv_sec k) (tv_nsec k)"
    using r(1) assms(2) of_int_0_le_iff[of "tv_sec k", where 'a = rat] by linarith
qed

lemma abs_close_diff:
  fixes r :: rat
  assumes "\<bar>r - (a - b)\<bar> \<le> p" "p + 2 * q \<le> E" "t = ta - tb" "\<bar>a - ta\<bar> \<le> q" "\<bar>b - tb\<bar> \<le> q"
  shows "\<bar>r - t\<bar> \<le> E"
  using assms by linarith

lemma elapsed_close:
  assumes "normalised k" "0 \<le> tv_sec k" "tv_sec k < 2 ^ 23 - 1"
    and "normalised k0" "0 \<le> tv_sec k0" "tv_sec k0 < 2 ^ 23 - 1"
  obtains e where "fp_of (b64_sub (timer_to_s k) (timer_to_s k0)) = Fin e"
    "\<bar>e - of_int (total_ns k - total_ns k0) / 10 ^ 9\<bar> \<le> 2 / 10 ^ 9"
proof -
  let ?a = "secs_of rnd (tv_sec k) (tv_nsec k)" and ?b = "secs_of rnd (tv_sec k0) (tv_nsec k0)"
  note a = secs_of_close[OF assms(1-3)] and b = secs_of_close[OF assms(4-6)]
  have d: "\<bar>?a - ?b\<bar> < 2 ^ 23" using a b by linarith
  have v: "fp_of (b64_sub (timer_to_s k) (timer_to_s k0)) = Fin (rnd (?a - ?b))"
    using assms d by (intro b64_sub_val timer_to_s_val fits64_small) auto
  have p: "\<bar>rnd (?a - ?b) - (?a - ?b)\<bar> \<le> 2 powi (22 - 53)"
    using d by (intro rnd_error) auto
  have q: "(2 powi (22 - 53) :: rat) + 2 * (2 powi (- 31) + 2 powi (- 54)) \<le> 2 / 10 ^ 9"
    by (simp add: power_int_def power_divide)
  have t: "of_int (total_ns k - total_ns k0) / 10 ^ 9
      = (of_int (total_ns k) / 10 ^ 9 - of_int (total_ns k0) / 10 ^ 9 :: rat)"
    by (simp add: diff_divide_distrib)
  note abs_close_diff[OF p q t a(1) b(1)]
  with v show ?thesis by (rule that)
qed

text \<open>The state of a reader that has seen the last time stamp \<open>x\<close> of a silent writer.\<close>

definition waiting :: "channel \<Rightarrow> 'h rtipc \<Rightarrow> rat \<Rightarrow> rat \<Rightarrow> bool" where
  "waiting ch c x w \<longleftrightarrow> access_mode c = SHMEM_SERVER \<and> ch_bond ch = 1 \<and> ch_rt ch = 1 \<and>
     fp_of (ch_time ch) = Fin x \<and> fp_of (data_time_prev c) = Fin x \<and>
     fp_of (watchdog c) = Fin w \<and> 0 \<le> w"

lemma tick_eps_pos:
  obtains e where "fp_of tick_eps = Fin e" "0 < e"
proof -
  have "fp_of tick_eps = Fin (rnd (1 / 100000))"
    unfolding b64_lit_def by (rule fp_of_round, rule fits64_small) simp
  moreover have "rnd (2 powi (-17)) \<le> rnd (1 / 100000)"
    by (rule rnd_mono) (simp add: power_int_def power_divide)
  moreover have "rnd (2 powi (-17)) = 2 powi (-17)"
    using rnd_exact[OF representable_scaled[of 1 "-17"]] by simp
  ultimately show ?thesis using that[of "rnd (1 / 100000)"] two_powi_pos[of "-17"] by simp
qed

lemma watchdog_stale:
  assumes "fp_of l = Fin 0" "fp_of wd = Fin w" "0 \<le> w"
  shows "flush_watchdog wd st l now =
    (if b64_eq st (b64_of_int (-1)) then (NONE_ERROR, now)
     else if b64_less wd (b64_sub now st) then (WATCHDOG, st) else (NONE_ERROR, st))"
proof -
  obtain e where e: "fp_of tick_eps = Fin e" "0 < e" by (rule tick_eps_pos)
  then show ?thesis
    using assms by (simp add: flush_watchdog_def b64_less_val[OF assms(1) e(1)]
        b64_less_val[OF e(1) assms(1)] b64_less_val[OF assms(2,1)])
qed

lemma flush_waiting:
  assumes "waiting ch c x w" and st: "b64_eq (start_watchdog_time c) (b64_of_int (-1)) = arm"
  shows "\<exists>out' c'. flush_spec ch c clock =
      ((if \<not> arm \<and> b64_less (watchdog c) (b64_sub (timer_to_s clock) (start_watchdog_time c))
        then WATCHDOG else NONE_ERROR), out', c') \<and>
    fo_buffer out' = (if \<not> arm \<and> b64_less (watchdog c) (b64_sub (timer_to_s clock) (start_watchdog_time c))
        then replicate (length (ch_data ch)) 0 else ch_data ch) \<and>
    waiting ch c' x w \<and> watchdog c' = watchdog c \<and>
    start_watchdog_time c' = (if arm then timer_to_s clock else start_watchdog_time c) \<and>
    (\<forall>L s. attached L c' s = attached L c s \<and> region L c' s = region L c s)"
proof -
  have "fp_of (b64_sub (ch_time ch) (data_time_prev c)) = Fin 0"
    using assms(1) by (intro b64_sub_self) (auto simp: waiting_def)
  then show ?thesis
    using assms watchdog_stale[of _ "watchdog c" w "start_watchdog_time c" "timer_to_s clock"]
    by (auto simp: waiting_def flush_spec_def Let_def isClient_def isServer_def region_def)
qed

lemma started_not_armed:
  assumes "normalised k" "0 \<le> tv_sec k" "tv_sec k < 2 ^ 23 - 1"
  shows "\<not> b64_eq (timer_to_s k) (b64_of_int (-1))"
  using secs_of_close(2)[OF assms] timer_to_s_val[of k] assms b64_of_int_val[of "-1"]
  by (auto simp: b64_eq_def)

lemma close_cases:
  fixes w :: rat
  assumes "\<bar>e - t\<bar> \<le> d"
  shows "w + d < t \<Longrightarrow> w < e" and "t \<le> w - d \<Longrightarrow> \<not> w < e"
  using assms by linarith+

text \<open>
  What one later flush must deliver: \<open>e\<close> is the time since the first one in seconds, and the
  two nanoseconds are what the arithmetic on doubles can lose within the first 97 days.
\<close>

definition stale_verdict :: "rat \<Rightarrow> channel \<Rightarrow> rat \<Rightarrow> error_code \<times> byte list \<Rightarrow> bool" where
  "stale_verdict w ch e r \<longleftrightarrow>
     (w + 2 / 10 ^ 9 < e \<longrightarrow> r = (WATCHDOG, replicate (length (ch_data ch)) 0)) \<and>
     (e \<le> w - 2 / 10 ^ 9 \<longrightarrow> r = (NONE_ERROR, ch_data ch))"

lemma stale_verdictI:
  assumes "\<bar>e - t\<bar> \<le> 2 / 10 ^ 9"
  shows "stale_verdict w ch t (if w < e then WATCHDOG else NONE_ERROR,
    if w < e then replicate (length (ch_data ch)) 0 else ch_data ch)"
proof (cases "w < e")
  case True
  then have "\<not> t \<le> w - 2 / 10 ^ 9" using close_cases(2)[OF assms, of w] by blast
  then show ?thesis using True unfolding stale_verdict_def by simp
next
  case False
  then have "\<not> w + 2 / 10 ^ 9 < t" using close_cases(1)[OF assms, of w] by blast
  then show ?thesis using False unfolding stale_verdict_def by simp
qed

definition early_clock :: "timespec \<Rightarrow> bool" where
  "early_clock k \<longleftrightarrow> normalised k \<and> 0 \<le> tv_sec k \<and> tv_sec k < 2 ^ 23 - 1"

lemma stale_flushes:
  assumes "flush_args L c out n s" "waiting (channel_of (region L c s)) c x w"
    and "start_watchdog_time c = timer_to_s k0" "early_clock k0" "\<forall>k\<in>set ks. early_clock k"
  shows "\<exists>rs. ipc_flushes nd L c out n ks s = Inr rs \<and>
    list_all2 (\<lambda>k. stale_verdict w (channel_of (region L c s)) (of_int (total_ns k - total_ns k0) / 10 ^ 9)) ks rs"
  using assms
proof (induction ks arbitrary: c out)
  case (Cons k ks)
  let ?ch = "channel_of (region L c s)"
  have ek: "early_clock k" using Cons.prems(5) by simp
  have na: "b64_eq (start_watchdog_time c) (b64_of_int (-1)) = False"
    using started_not_armed[of k0] Cons.prems(3,4) by (simp add: early_clock_def)
  obtain e where e: "fp_of (b64_sub (timer_to_s k) (timer_to_s k0)) = Fin e"
    "\<bar>e - of_int (total_ns k - total_ns k0) / 10 ^ 9\<bar> \<le> 2 / 10 ^ 9"
    using elapsed_close[of k k0] ek Cons.prems(4) unfolding early_clock_def by blast
  have wd: "b64_less (watchdog c) (b64_sub (timer_to_s k) (start_watchdog_time c)) \<longleftrightarrow> w < e"
    using b64_less_val[OF _ e(1)] Cons.prems(2,3) by (simp add: waiting_def)
  obtain out' c' where f: "flush_spec ?ch c k = ((if w < e then WATCHDOG else NONE_ERROR), out', c')"
    "fo_buffer out' = (if w < e then replicate (length (ch_data ?ch)) 0 else ch_data ?ch)"
    "waiting ?ch c' x w" "start_watchdog_time c' = timer_to_s k0"
    "attached L c' s = attached L c s" "region L c' s = region L c s"
    using flush_waiting[OF Cons.prems(2) na, of k] Cons.prems(3) unfolding wd by auto
  have "flush_args L c' out' n s" using Cons.prems(1) f(2,5,6) by (auto simp: flush_args_def)
  then obtain rs where rs: "ipc_flushes nd L c' out' n ks s = Inr rs"
    "list_all2 (\<lambda>k. stale_verdict w ?ch (of_int (total_ns k - total_ns k0) / 10 ^ 9)) ks rs"
    using Cons.IH[of c' out'] f(3-6) Cons.prems(4,5) by auto
  have "stale_verdict w ?ch (of_int (total_ns k - total_ns k0) / 10 ^ 9)
      ((if w < e then WATCHDOG else NONE_ERROR), fo_buffer out')"
    unfolding f(2) by (rule stale_verdictI[OF e(2)])
  then show ?case using rs flush_refines[OF Cons.prems(1), of nd k] f(1) by simp
qed simp

text \<open>C6: When the hard real-time writer of a bonded channel falls silent: a server that has seen
  its last, finite time stamp, whose watchdog is not started and has a finite period of at
  least 0, flushing into a buffer of the size of the data (with that size as n_bytes) at
  clock readings within the first 97 days (normalised, seconds from 0 to below 2^23 - 1),
  starts the watchdog at the first flush and still delivers the data; every later flush
  raises WATCHDOG with a zeroed buffer when its clock is more than the watchdog period and
  two nanoseconds after that of the first, and delivers the data without an alarm when it is
  at most the period less two nanoseconds after it.\<close>

theorem ipc_flush_stale_watchdog:
  assumes "flush_args L c out n s" "waiting (channel_of (region L c s)) c x w"
    and "start_watchdog_time c = b64_of_int (-1)" "early_clock k0" "\<forall>k\<in>set ks. early_clock k"
  shows "\<exists>rs. ipc_flushes nd L c out n (k0 # ks) s
      = Inr ((NONE_ERROR, ch_data (channel_of (region L c s))) # rs) \<and>
    list_all2 (\<lambda>k. stale_verdict w (channel_of (region L c s)) (of_int (total_ns k - total_ns k0) / 10 ^ 9)) ks rs"
proof -
  let ?ch = "channel_of (region L c s)"
  have "b64_eq (start_watchdog_time c) (b64_of_int (-1)) = True"
    using assms(3) b64_of_int_val[of "-1"] by (simp add: b64_eq_def)
  from flush_waiting[OF assms(2) this, of k0]
  obtain out' c' where f: "flush_spec ?ch c k0 = (NONE_ERROR, out', c')" "fo_buffer out' = ch_data ?ch"
    "waiting ?ch c' x w" "start_watchdog_time c' = timer_to_s k0"
    "attached L c' s = attached L c s" "region L c' s = region L c s" by auto
  have "flush_args L c' out' n s" using assms(1) f(2,5,6) by (auto simp: flush_args_def)
  from stale_flushes[OF this, of x w k0 ks nd] f(2-6) assms(4,5)
  show ?thesis using flush_refines[OF assms(1), of nd k0] f(1,2) by auto
qed

lemma ipc_flush_stale_watchdog_witness:
  "ipc_flushes True mem_lib (demo_end SHMEM_SERVER\<lparr>data_time_prev := b64_of_int 7\<rparr>) demo_out 2
     [\<lparr>tv_sec = 10, tv_nsec = 0\<rparr>, \<lparr>tv_sec = 10, tv_nsec = 500000000\<rparr>, \<lparr>tv_sec = 12, tv_nsec = 0\<rparr>]
     (demo_bonded (b64_of_int 7))
   = Inr [(NONE_ERROR, [3, 4]), (NONE_ERROR, [3, 4]), (WATCHDOG, [0, 0])]"
proof -
  let ?c = "demo_end SHMEM_SERVER\<lparr>data_time_prev := b64_of_int 7\<rparr>"
  have r: "region mem_lib ?c s = region mem_lib (demo_end SHMEM_SERVER) s" for s
    by (simp add: region_def)
  have "flush_args mem_lib ?c demo_out 2 (demo_bonded (b64_of_int 7))"
    by (simp add: flush_args_def r demo_bonded_channel demo_out_def)
  moreover have "waiting (channel_of (region mem_lib ?c (demo_bonded (b64_of_int 7)))) ?c 7 1"
    using b64_of_int_val[of 7] b64_of_int_val[of 1]
    by (simp add: waiting_def r demo_bonded_channel demo_watchdog)
  ultimately show ?thesis
    using ipc_flush_stale_watchdog[of mem_lib ?c demo_out 2 "demo_bonded (b64_of_int 7)" 7 1
        "\<lparr>tv_sec = 10, tv_nsec = 0\<rparr>"
        "[\<lparr>tv_sec = 10, tv_nsec = 500000000\<rparr>, \<lparr>tv_sec = 12, tv_nsec = 0\<rparr>]" True]
    by (auto simp: r demo_bonded_channel early_clock_def normalised_def stale_verdict_def
        list_all2_Cons1 numeral_2_eq_2 total_ns_def demo_watchdog simp del: ipc_flushes.simps)
qed

end
