(* ===== verification/IPC_Life.thy ===== *)
theory IPC_Life
  imports IPC_Flush
begin

text \<open>
  The life of a \<open>RealTimeIPC\<close> object: what its constructor leaves behind for a server and a
  client, on success and on failure, how the two ends meet on one region, what the
  destructor removes, the limits of the packet, and the gap between reading a packet and
  writing it back.
\<close>

subsection \<open>Construction\<close>

lemma server_dim:
  assumes "unat n < 1024"
  shows "unat (n + header_dim) = unat n + 10" "header_dim < n + header_dim \<longleftrightarrow> 0 < unat n"
proof -
  show u: "unat (n + header_dim) = unat n + 10" using assms by (simp add: unat_word_ariths)
  then show "header_dim < n + header_dim \<longleftrightarrow> 0 < unat n" by (simp add: word_less_nat_alt)
qed

lemma init_server_cases:
  assumes "init_server L c s = (None, c', s')" "header_dim < dim_with_header c"
  obtains h w1 w2 w4 where "lib_shm_create L (ipc_name c) 447 (world s) = Inr (h, w1)"
    "lib_truncate L h (unat (dim_with_header c)) w1 = Inr w2" "lib_map L h w2 = None"
    "lib_mutex_create L (ipc_name c) 447 (lib_write L h (replicate (length (lib_read L h w2)) 0) w2) = Inr w4"
    "c' = c\<lparr>shared_memory := Some h, shared_map := Some h, ipc_mutex := True\<rparr>"
    "s' = s\<lparr>world := w4\<rparr>"
  using assms by (auto simp: init_server_def Let_def split: sum.splits option.splits)

context interprocess
begin

lemma server_ready:
  assumes i: "init_server L c s = (None, c', s')" and d: "header_dim < dim_with_header c"
  obtains h where "shared_map c' = Some h" "lib_shm_open L (ipc_name c) (world s') = Inr h"
    "lib_read L h (world s') = replicate (unat (dim_with_header c)) 0"
    "lib_map L h (world s') = None" "lib_mutex_open L (ipc_name c) (world s') = None"
    "umask s' = umask s" "c' = c\<lparr>shared_memory := Some h, shared_map := Some h, ipc_mutex := True\<rparr>"
proof (rule init_server_cases[OF i d])
  fix h w1 w2 w4
  let ?z = "replicate (length (lib_read L h w2)) 0"
  assume a: "lib_shm_create L (ipc_name c) 447 (world s) = Inr (h, w1)"
    "lib_truncate L h (unat (dim_with_header c)) w1 = Inr w2" "lib_map L h w2 = None"
    "lib_mutex_create L (ipc_name c) 447 (lib_write L h ?z w2) = Inr w4"
    "c' = c\<lparr>shared_memory := Some h, shared_map := Some h, ipc_mutex := True\<rparr>" "s' = s\<lparr>world := w4\<rparr>"
  have o: "lib_shm_open L (ipc_name c) w4 = Inr h"
    using open_mutex[OF a(4)] open_write open_truncate[OF a(2)] create_open[OF a(1)] by simp
  have r: "lib_read L h w4 = replicate (unat (dim_with_header c)) 0"
    using read_mutex[OF a(4)] read_write[of ?z h w2] truncate_size[OF a(2)] by simp
  have m: "lib_map L h w4 = None" using map_mutex[OF a(4)] map_write[of ?z h w2] a(3) by simp
  show ?thesis using a(5,6) o r m mutex_created[OF a(4)] by (intro that[of h]) auto
qed

text \<open>The object a server's constructor returns, and the client that finds its memory.\<close>

lemma server_constructed:
  assumes "RealTimeIPC nd L name op wd SHMEM_SERVER n s = (Inr c, s')" "0 < unat n" "unat n < 1024"
  obtains h where "shared_map c = Some h" "lib_shm_open L name (world s') = Inr h"
    "lib_read L h (world s') = replicate (unat n + 10) 0" "lib_map L h (world s') = None"
    "lib_mutex_open L name (world s') = None" "umask s' = umask s" "attached L c s'"
    "access_mode c = SHMEM_SERVER" "dim_with_header c = n + header_dim" "ipc_name c = name"
proof -
  note u = server_dim[OF assms(3)]
  let ?c0 = "\<lparr>access_mode = SHMEM_SERVER, rt_skin = POSIX, operational_time = op, watchdog = wd,
      ipc_name = name, dim_with_header = n + header_dim, shared_memory = None, shared_map = None,
      ipc_mutex = False, start_watchdog_time = b64_of_int (-1), data_time_prev = b64_of_int 0,
      flush_time_prev = b64_of_int 0, bond_cnt = 0, bonded_prev = False, is_hard_rt_prev = False\<rparr>"
  have i: "init_server L ?c0 s = (None, c, s')"
    using assms(1) by (auto simp: RealTimeIPC_def ipc_init_def Let_def split: prod.splits if_splits)
  show ?thesis
  proof (rule server_ready[OF i])
    show "header_dim < dim_with_header ?c0" using u(2) assms(2) by simp
  next
    fix h
    assume "shared_map c = Some h" "lib_shm_open L (ipc_name ?c0) (world s') = Inr h"
      "lib_read L h (world s') = replicate (unat (dim_with_header ?c0)) 0"
      "lib_map L h (world s') = None" "lib_mutex_open L (ipc_name ?c0) (world s') = None"
      "umask s' = umask s" "c = ?c0\<lparr>shared_memory := Some h, shared_map := Some h, ipc_mutex := True\<rparr>"
    then show ?thesis using u(1) assms(2,3) by (intro that[of h]) (auto simp: attached_def)
  qed
qed

lemma client_constructed:
  assumes "lib_shm_open L name (world s) = Inr h" "lib_map L h (world s) = None"
    and "lib_mutex_open L name (world s) = None"
    and "10 < length (lib_read L h (world s))" "length (lib_read L h (world s)) < 1034"
  shows "\<exists>c. RealTimeIPC nd L name op wd SHMEM_CLIENT n s = (Inr c, s) \<and> attached L c s \<and>
    shared_map c = Some h \<and> access_mode c = SHMEM_CLIENT \<and> ipc_name c = name"
proof -
  have u: "unat (word_of_nat (length (lib_read L h (world s))) :: size_t) = length (lib_read L h (world s))"
    using assms(5) by (simp add: unsigned_of_nat take_bit_nat_eq_self)
  then have "header_dim < (word_of_nat (length (lib_read L h (world s))) :: size_t)"
    using assms(4) by (simp add: word_less_nat_alt)
  then show ?thesis using assms u
    by (simp add: RealTimeIPC_def ipc_init_def init_client_def Let_def assert_res_def attached_def)
qed

end

text \<open>C18: When a server's constructor with a size from 1 to 1023 succeeds, the server is attached
  to a zeroed region of that size plus the header and the process's file mode mask is
  restored; a client constructed afterwards under the same name, whatever size it asks for,
  attaches to the same region and changes nothing.\<close>

theorem ipc_ends_meet:
  assumes "interprocess L"
    and "RealTimeIPC nd L name op wd SHMEM_SERVER n s = (Inr c, s')" "0 < unat n" "unat n < 1024"
  shows "attached L c s' \<and> region L c s' = replicate (unat n + 10) 0 \<and> umask s' = umask s \<and>
    (\<exists>c'. RealTimeIPC nd' L name op' wd' SHMEM_CLIENT n' s' = (Inr c', s') \<and> attached L c' s' \<and>
       shared_map c' = shared_map c \<and> access_mode c' = SHMEM_CLIENT)"
proof (rule interprocess.server_constructed[OF assms])
  fix h
  assume a: "shared_map c = Some h" "lib_shm_open L name (world s') = Inr h"
    "lib_read L h (world s') = replicate (unat n + 10) 0" "lib_map L h (world s') = None"
    "lib_mutex_open L name (world s') = None" "umask s' = umask s" "attached L c s'"
  show ?thesis
    using interprocess.client_constructed[OF assms(1) a(2,4,5), of nd' op' wd' n'] a assms(3,4)
    by (auto simp: region_def)
qed

lemma demo_server:
  "\<exists>c s'. RealTimeIPC nd mem_lib ''arm'' op wd SHMEM_SERVER 2 \<lparr>world = mem_empty, umask = 18\<rparr> = (Inr c, s') \<and>
     access_mode c = SHMEM_SERVER \<and> watchdog c = wd \<and> start_watchdog_time c = b64_of_int (-1) \<and>
     shared_map c = Some 0 \<and> ipc_name c = ''arm'' \<and> lib_shm_open mem_lib ''arm'' (world s') = Inr 0"
  by (simp add: RealTimeIPC_def ipc_init_def init_server_def Let_def mem_lib_def mem_empty_def)

lemma ipc_ends_meet_witness:
  "\<exists>c s'. RealTimeIPC True mem_lib ''arm'' 7 8 SHMEM_SERVER 2 \<lparr>world = mem_empty, umask = 18\<rparr> = (Inr c, s') \<and>
     attached mem_lib c s' \<and> region mem_lib c s' = replicate 12 0 \<and> umask s' = 18 \<and>
     (\<exists>c'. RealTimeIPC False mem_lib ''arm'' 7 8 SHMEM_CLIENT 99 s' = (Inr c', s') \<and>
        shared_map c' = shared_map c)"
proof -
  obtain c s' where c: "RealTimeIPC True mem_lib ''arm'' 7 8 SHMEM_SERVER 2
      \<lparr>world = mem_empty, umask = 18\<rparr> = (Inr c, s')" using demo_server by blast
  from ipc_ends_meet[OF mem.interprocess_axioms c, of False 7 8 99] show ?thesis
    using c by fastforce
qed

text \<open>C9: Over an unbonded soft real-time channel, a client that bonds and updates with a time and
  a buffer of the region's size makes the server's next flush return NONE_ERROR, that time
  and exactly that buffer, whatever the clock says.\<close>

theorem ipc_round_trip:
  assumes "interprocess L"
    and "attached L c s" "access_mode c = SHMEM_SERVER" "attached L c' s" "shared_map c' = shared_map c"
    and "ch_bond (channel_of (region L c s)) \<noteq> 1" "ch_rt (channel_of (region L c s)) \<noteq> 1"
    and "length bs + 10 = length (region L c s)" "length (fo_buffer out) = length bs"
  shows "\<exists>s1. ipc_calls nd L [(c', Op_Bond), (c', Op_Update t bs)] s = Inr ([R_Bool True, R_Code NONE_ERROR], s1) \<and>
    (\<exists>out' c1. ipc_flush nd L c out (word_of_nat (length bs)) clock s1 = Inr (NONE_ERROR, out', c1) \<and>
       fo_buffer out' = bs \<and> fo_time out' = t)"
proof -
  let ?ch = "channel_of (region L c s)"
  have lb: "length bs = length (ch_data ?ch)" "length bs < 2 ^ 64"
    using assms(8) size_attached(5)[OF assms(2)] by (auto simp: channel_of_def)
  have "\<forall>x\<in>set [(c', Op_Bond), (c', Op_Update t bs)].
      attached L (fst x) s \<and> shared_map (fst x) = shared_map c \<and> op_fits (snd x)"
    using assms(4,5) lb(2) by (simp add: op_fits_def)
  from interprocess.calls_refine[OF assms(1) this assms(2), of nd]
  obtain s1 where s1: "ipc_calls nd L [(c', Op_Bond), (c', Op_Update t bs)] s
      = Inr ([R_Bool True, R_Code NONE_ERROR], s1)" "attached L c s1"
    "channel_of (region L c s1) = ?ch\<lparr>ch_bond := 1, ch_time := t, ch_data := bs\<rparr>"
    using assms(2,6) lb(1) by (auto simp: siblings_def)
  then have f: "flush_args L c out (word_of_nat (length bs)) s1"
    using assms(9) by (simp add: flush_args_def)
  obtain al st where "flush_watchdog (watchdog c) (start_watchdog_time c)
      (b64_sub t (data_time_prev c)) (timer_to_s clock) = (al, st)" by force
  then show ?thesis using s1 assms(3,7) flush_refines[OF f, of nd clock]
    by (simp add: flush_spec_def Let_def isClient_def)
qed

lemma ipc_round_trip_witness:
  "\<exists>s1 out' c1. ipc_calls True mem_lib
       [(demo_end SHMEM_CLIENT, Op_Bond), (demo_end SHMEM_CLIENT, Op_Update 5 [7, 8])] demo_world
     = Inr ([R_Bool True, R_Code NONE_ERROR], s1) \<and>
   ipc_flush True mem_lib (demo_end SHMEM_SERVER) demo_out 2 \<lparr>tv_sec = 5, tv_nsec = 0\<rparr> s1
     = Inr (NONE_ERROR, out', c1) \<and> fo_buffer out' = [7, 8]"
  using ipc_round_trip[OF mem.interprocess_axioms, of "demo_end SHMEM_SERVER" demo_world
      "demo_end SHMEM_CLIENT" "[7, 8]" demo_out True 5 "\<lparr>tv_sec = 5, tv_nsec = 0\<rparr>"]
  by (auto simp: demo_attached demo_channel demo_out_def)

subsection \<open>Failures of the constructor\<close>

text \<open>When the memory of a server cannot be created (a region of that name exists, say), the
  constructor throws and leaves the process's file mode mask at 0: the mask is restored only
  on the successful path.\<close>

theorem ipc_failed_server_umask:
  assumes "0 < unat n" "unat n < 1024" "lib_shm_create L name 447 (world s) = Inl e"
  shows "\<exists>s'. RealTimeIPC nd L name op wd SHMEM_SERVER n s
      = (Inl (Uncaught ''Error in Init RealTimeIPC. Abort.''), s') \<and> umask s' = 0 \<and> world s' = world s"
  using assms server_dim(2)[OF assms(2)]
  by (simp add: RealTimeIPC_def ipc_init_def init_server_def Let_def)

lemma ipc_failed_server_umask_witness:
  "\<exists>s'. RealTimeIPC True mem_lib ''arm'' 7 8 SHMEM_SERVER 2
      \<lparr>world = mem_empty\<lparr>mw_names := [''arm'' \<mapsto> 3]\<rparr>, umask = 18\<rparr>
    = (Inl (Uncaught ''Error in Init RealTimeIPC. Abort.''), s') \<and> umask s' = 0"
  using ipc_failed_server_umask[of 2 mem_lib "''arm''" "\<lparr>world = mem_empty\<lparr>mw_names := [''arm'' \<mapsto> 3]\<rparr>, umask = 18\<rparr>"
      Already_Exists True 7 8]
  by (auto simp: mem_lib_def)

text \<open>A client that finds no memory is constructed without an error and holds no mutex: breakBond
  then dereferences a null pointer, and with a size above 0 so do isBonded, bond and the
  destructor; with the default size 0 those three return at once.\<close>

theorem ipc_client_without_memory:
  assumes "lib_shm_open L name (world s) = Inl Not_Found" "unat n < 1023"
  shows "\<exists>c. RealTimeIPC nd L name op wd SHMEM_CLIENT n s = (Inr c, s) \<and>
    breakBond nd L c s = Inl Null_Deref \<and>
    (if 0 < unat n then isBonded nd L c s = Inl Null_Deref \<and> bond nd L c s = Inl Null_Deref \<and>
       RealTimeIPC_destroy nd L c s = Inl Null_Deref
     else isBonded nd L c s = Inr (False, c) \<and> bond nd L c s = Inr (False, s) \<and>
       RealTimeIPC_destroy nd L c s = Inr s)"
proof -
  have u: "unat (n + header_dim) = unat n + 10" "header_dim < n + header_dim \<longleftrightarrow> 0 < unat n"
    using server_dim[of n] assms(2) by auto
  have lt: "n + header_dim < word_of_nat packet_size" using u(1) assms(2) by (simp add: word_less_nat_alt)
  have eq: "n + header_dim = header_dim \<longleftrightarrow> unat n = 0" using unat_eq_0[of n] by auto
  show ?thesis
    using assms(1) u(2) lt eq
    by (auto simp: RealTimeIPC_def ipc_init_def init_client_def Let_def breakBond_def isBonded_def
        bond_def getDataPacket_def assert_res_def RealTimeIPC_destroy_def)
qed

lemma ipc_client_without_memory_witness:
  "\<exists>c. RealTimeIPC True mem_lib ''arm'' 7 8 SHMEM_CLIENT 2 \<lparr>world = mem_empty, umask = 18\<rparr>
      = (Inr c, \<lparr>world = mem_empty, umask = 18\<rparr>) \<and>
    RealTimeIPC_destroy True mem_lib c \<lparr>world = mem_empty, umask = 18\<rparr> = Inl Null_Deref"
  using ipc_client_without_memory[of mem_lib "''arm''" "\<lparr>world = mem_empty, umask = 18\<rparr>" 2 True 7 8]
  by (auto simp: mem_lib_def mem_empty_def)

subsection \<open>The size of a packet\<close>

text \<open>For a region of 1024 data bytes or more a debug build stops at the assertion; a release
  build moves the region of exactly 1024 data bytes whole and copies past the end of the
  packet for every larger one.\<close>

theorem ipc_packet_limit:
  assumes "access_mode c = SHMEM_SERVER \<or> access_mode c = SHMEM_CLIENT" "rt_skin c = POSIX"
    and "ipc_mutex c" "shared_map c = Some h"
    and "length (lib_read L h (world s)) = unat (dim_with_header c)" "1034 \<le> unat (dim_with_header c)"
  shows "getDataPacket False L c s = Inl Assertion_Failed \<and>
    getDataPacket True L c s =
      (if unat (dim_with_header c) = 1034 then Inr (lib_read L h (world s)) else Inl Out_Of_Bounds)"
proof -
  have "\<not> dim_with_header c < word_of_nat packet_size" using assms(6) by (simp add: word_less_nat_alt)
  then have "getDataPacket False L c s = Inl Assertion_Failed"
    by (simp add: getDataPacket_def assert_res_def)
  moreover have "getDataPacket True L c s =
      (if unat (dim_with_header c) = 1034 then Inr (lib_read L h (world s)) else Inl Out_Of_Bounds)"
    using assms by (auto simp: getDataPacket_def assert_res_def Let_def memcpy_def packet_clear_def)
  ultimately show ?thesis by simp
qed

lemma ipc_packet_limit_witness:
  "getDataPacket False mem_lib (demo_end SHMEM_SERVER\<lparr>dim_with_header := 1034\<rparr>)
      \<lparr>world = mem_empty\<lparr>mw_data := (\<lambda>_. replicate 1034 7)\<rparr>, umask = 18\<rparr> = Inl Assertion_Failed \<and>
   getDataPacket True mem_lib (demo_end SHMEM_SERVER\<lparr>dim_with_header := 1034\<rparr>)
      \<lparr>world = mem_empty\<lparr>mw_data := (\<lambda>_. replicate 1034 7)\<rparr>, umask = 18\<rparr> = Inr (replicate 1034 7)"
  using ipc_packet_limit[of "demo_end SHMEM_SERVER\<lparr>dim_with_header := 1034\<rparr>" 0 mem_lib
      "\<lparr>world = mem_empty\<lparr>mw_data := (\<lambda>_. replicate 1034 7)\<rparr>, umask = 18\<rparr>"]
  by (simp add: demo_end_def mem_lib_def)

subsection \<open>Destruction\<close>

context interprocess
begin

text \<open>What the destructor does before it removes anything.\<close>

lemma unbond_attached:
  assumes a: "attached L c s"
  shows "\<exists>x s1. let b = (ch_bond (channel_of (region L c s)) = 1); c1 = c\<lparr>bonded_prev := x\<rparr> in
    isBonded nd L c s = Inr (b, c1) \<and>
    (if b then breakBond nd L c1 s else Inr (True, s)) = Inr (True, s1) \<and>
    siblings L c s s1
      (if b then (channel_of (region L c s))\<lparr>ch_bond := 0, ch_rt := 0\<rparr> else channel_of (region L c s))"
proof -
  let ?m = "region L c s"
  let ?c1 = "c\<lparr>bonded_prev := (?m ! 0 = 1)\<rparr>"
  note sz = size_attached[OF a]
  have hl: "header_size \<le> length ?m" using sz by auto
  have k: "(if bonded_prev c \<noteq> (?m ! 0 = 1) then ?c1 else c) = ?c1" by auto
  have b: "isBonded nd L c s = Inr (?m ! 0 = 1, ?c1)"
    using sz get_attached[OF a, of nd] pkt_fields(1)[OF hl] k by (simp add: isBonded_def Let_def)
  have c1: "attached L ?c1 s" "region L ?c1 s = ?m" "shared_map ?c1 = shared_map c"
    using a by (auto simp: attached_def region_def)
  have same: "siblings L c s s (channel_of ?m)" using a by (auto simp: siblings_def region_def)
  obtain s1 where s1: "breakBond nd L ?c1 s = Inr (True, s1)"
    "siblings L c s s1 ((channel_of ?m)\<lparr>ch_bond := 0, ch_rt := 0\<rparr>)"
    using call_refines[OF c1(1), of Op_Break nd] c1(2,3)
    by (auto simp: op_fits_def ipc_call_def siblings_def bind_res_Inr_iff split: prod.splits)
  have m: "ch_bond (channel_of ?m) = ?m ! 0" by (simp add: channel_of_def)
  show ?thesis
  proof (cases "?m ! 0 = 1")
    case True
    then show ?thesis using b s1 m
      by (intro exI[of _ "?m ! 0 = 1"] exI[of _ s1]) simp
  next
    case False
    then show ?thesis using b same m
      by (intro exI[of _ "?m ! 0 = 1"] exI[of _ s]) simp
  qed
qed

lemma set_keeps_names:
  "setDataPacket nd L c p s = Inr s' \<Longrightarrow> lib_shm_open L n (world s') = lib_shm_open L n (world s)"
  by (auto simp: setDataPacket_def Let_def bind_res_Inr_iff open_write split: access_mode.splits option.splits)

lemma break_keeps_names:
  "breakBond nd L c s = Inr (b, s') \<Longrightarrow> lib_shm_open L n (world s') = lib_shm_open L n (world s)"
  by (auto simp: breakBond_def bind_res_Inr_iff dest: set_keeps_names)

lemma remove_keeps:
  assumes "attached L c' s"
  shows "attached L c' (s\<lparr>world := snd (lib_mutex_remove L n (snd (lib_shm_remove L n (world s))))\<rparr>)"
    "region L c' (s\<lparr>world := snd (lib_mutex_remove L n (snd (lib_shm_remove L n (world s))))\<rparr>) = region L c' s"
  using assms by (auto simp: attached_def region_def remove_read remove_mutex_read)

end

text \<open>C29: The destructor of an attached object faults never and leaves the channel of the others
  on the region unbonded with its data. It first breaks a bond it finds, which leaves the
  name as it was; a client's does nothing more. A server's then asks the system to remove
  the name: when that removal, in the state the destructor has then reached, succeeds, no
  client can open the name after the destructor; either way the attached ones keep the
  region.\<close>

theorem ipc_destroy_unbonds:
  assumes "interprocess L" "attached L c s" "attached L c' s" "shared_map c' = shared_map c"
  shows "\<exists>b c1 s1 s'. isBonded nd L c s = Inr (b, c1) \<and>
    (if b then breakBond nd L c1 s else Inr (True, s)) = Inr (True, s1) \<and>
    lib_shm_open L (ipc_name c) (world s1) = lib_shm_open L (ipc_name c) (world s) \<and>
    RealTimeIPC_destroy nd L c s = Inr s' \<and> attached L c' s' \<and>
    ch_bond (channel_of (region L c' s')) \<noteq> 1 \<and>
    ch_data (channel_of (region L c' s')) = ch_data (channel_of (region L c s)) \<and>
    (if access_mode c = SHMEM_SERVER
     then fst (lib_shm_remove L (ipc_name c) (world s1)) \<longrightarrow>
       lib_shm_open L (ipc_name c) (world s') = Inl Not_Found
     else s' = s1)"
proof -
  obtain x s1 where b: "isBonded nd L c s = Inr (ch_bond (channel_of (region L c s)) = 1, c\<lparr>bonded_prev := x\<rparr>)"
    "(if ch_bond (channel_of (region L c s)) = 1 then breakBond nd L (c\<lparr>bonded_prev := x\<rparr>) s
      else Inr (True, s)) = Inr (True, s1)"
    "siblings L c s s1 (if ch_bond (channel_of (region L c s)) = 1
      then (channel_of (region L c s))\<lparr>ch_bond := 0, ch_rt := 0\<rparr> else channel_of (region L c s))"
    using interprocess.unbond_attached[OF assms(1,2), of nd] by (auto simp: Let_def)
  have n1: "lib_shm_open L n (world s1) = lib_shm_open L n (world s)" for n
    using b(2) interprocess.break_keeps_names[OF assms(1)] by (auto split: if_splits)
  have sz: "header_dim < dim_with_header c" "rt_skin c = POSIX"
    using assms(2) by (simp_all add: attached_def word_less_nat_alt)
  have s1: "attached L c' s1" "ch_bond (channel_of (region L c' s1)) \<noteq> 1"
    "ch_data (channel_of (region L c' s1)) = ch_data (channel_of (region L c s))"
    using b(3) assms(3,4) by (auto simp: siblings_def)
  consider "access_mode c = SHMEM_CLIENT" | "access_mode c = SHMEM_SERVER"
    using assms(2) by (auto simp: attached_def)
  then show ?thesis
  proof cases
    case 1
    then have "RealTimeIPC_destroy nd L c s = Inr s1"
      using b(1,2) sz by (simp add: RealTimeIPC_destroy_def assert_res_def)
    then show ?thesis using 1 b(1,2) n1 s1
      by (intro exI[of _ "ch_bond (channel_of (region L c s)) = 1"] exI[of _ "c\<lparr>bonded_prev := x\<rparr>"]
          exI[of _ s1] conjI) simp_all
  next
    case 2
    let ?w1 = "snd (lib_shm_remove L (ipc_name c) (world s1))"
    let ?s' = "s1\<lparr>world := snd (lib_mutex_remove L (ipc_name c) ?w1)\<rparr>"
    have "lib_shm_open L (ipc_name c) (world ?s') = Inl Not_Found"
      if "fst (lib_shm_remove L (ipc_name c) (world s1))"
      using that interprocess.remove_gone[OF assms(1), of "ipc_name c" "world s1" ?w1]
      by (simp add: interprocess.remove_mutex_open[OF assms(1)] prod_eq_iff)
    moreover have "RealTimeIPC_destroy nd L c s = Inr ?s'"
      using 2 b(1,2) sz by (simp add: RealTimeIPC_destroy_def assert_res_def Let_def)
    ultimately show ?thesis using 2 b(1,2) n1 s1 interprocess.remove_keeps[OF assms(1) s1(1), of "ipc_name c"]
      by (intro exI[of _ "ch_bond (channel_of (region L c s)) = 1"] exI[of _ "c\<lparr>bonded_prev := x\<rparr>"]
          exI[of _ s1] exI[of _ ?s'] conjI) simp_all
  qed
qed

text \<open>The demonstration region under its name: a server that goes away takes the name with it.\<close>

lemma ipc_destroy_unbonds_witness:
  "let s = (demo_bonded 0)\<lparr>world := (world (demo_bonded 0))\<lparr>mw_names := [''x'' \<mapsto> 0]\<rparr>\<rparr> in
   lib_shm_open mem_lib ''x'' (world s) = Inr 0 \<and>
   (\<exists>s'. RealTimeIPC_destroy True mem_lib (demo_end SHMEM_SERVER) s = Inr s' \<and>
     lib_shm_open mem_lib ''x'' (world s') = Inl Not_Found \<and>
     ch_bond (channel_of (region mem_lib (demo_end SHMEM_CLIENT) s')) \<noteq> 1)"
proof -
  let ?s = "(demo_bonded 0)\<lparr>world := (world (demo_bonded 0))\<lparr>mw_names := [''x'' \<mapsto> 0]\<rparr>\<rparr>"
  have a: "attached mem_lib (demo_end m) ?s" if "m = SHMEM_SERVER \<or> m = SHMEM_CLIENT" for m
    using that by (auto simp: attached_def demo_end_def demo_bonded_def mem_lib_def region_def mem_empty_def)
  have n: "ipc_name (demo_end m) = ''x''" for m by (simp add: demo_end_def)
  have o: "lib_shm_open mem_lib ''x'' (world ?s) = Inr 0" by (simp add: mem_lib_def)
  have r: "fst (lib_shm_remove mem_lib ''x'' w)" if "lib_shm_open mem_lib ''x'' w = Inr 0" for w
    using that by (auto simp: mem_lib_def split: option.splits)
  show ?thesis
    using ipc_destroy_unbonds[OF mem.interprocess_axioms, of "demo_end SHMEM_SERVER" ?s "demo_end SHMEM_CLIENT" True]
      a o r unfolding n Let_def by (auto simp: demo_attached)
qed

subsection \<open>The gap between reading and writing\<close>

text \<open>update reads the packet and writes it back under two separate locks: when the other end
  breaks the bond in between, the write restores the bond and the real-time flag it had
  read, so the break is lost and the channel is bonded with the new data.\<close>

theorem ipc_update_loses_break:
  assumes "interprocess L" "attached L c s" "attached L c' s" "shared_map c' = shared_map c"
    and "ch_bond (channel_of (region L c s)) = 1" "length bs + 10 = length (region L c s)"
  shows "\<exists>p s1 s2. getDataPacket nd L c s = Inr p \<and>
    ipc_update nd L c bs t (word_of_nat (length bs)) s =
      bind_res (setDataPacket nd L c (set_data (bs @ drop (length bs) (data_of p)) (set_time t p)) s)
        (\<lambda>s'. Inr (NONE_ERROR, s')) \<and>
    breakBond nd L c' s = Inr (True, s1) \<and> ch_bond (channel_of (region L c s1)) = 0 \<and>
    setDataPacket nd L c (set_data (bs @ drop (length bs) (data_of p)) (set_time t p)) s1 = Inr s2 \<and>
    channel_of (region L c s2) = (channel_of (region L c s))\<lparr>ch_time := t, ch_data := bs\<rparr>"
proof -
  let ?m = "region L c s" and ?p = "pkt (region L c s)"
  note sz = size_attached[OF assms(2)]
  have hl: "header_size \<le> length ?m" "length ?m \<le> packet_size" using sz by auto
  have lb: "length bs = length ?m - header_size" using assms(6) by simp
  note st = store_data[OF hl lb] and fl = pkt_fields[OF hl(1)]
  have p': "bs @ drop (length bs) (data_of ?p) = bs @ replicate (packet_size - length ?m) 0"
    using lb fl(4) by simp
  have u: "ipc_update nd L c bs t (word_of_nat (length bs)) s =
      bind_res (setDataPacket nd L c (set_data (bs @ drop (length bs) (data_of ?p)) (set_time t ?p)) s)
        (\<lambda>s'. Inr (NONE_ERROR, s'))"
    using sz get_attached[OF assms(2), of nd] fl(1) assms(5) st(1) lb p'
    by (auto simp: ipc_update_def Let_def channel_of_def unat_eq_0)
  have r': "region L c' s = ?m" using assms(4) by (simp add: region_def)
  obtain s1 where s1: "breakBond nd L c' s = Inr (True, s1)" "attached L c s1"
    "channel_of (region L c s1) = (channel_of ?m)\<lparr>ch_bond := 0, ch_rt := 0\<rparr>"
    using interprocess.call_refines[OF assms(1,3), of Op_Break nd] r' assms(2,4)
    by (auto simp: op_fits_def ipc_call_def siblings_def bind_res_Inr_iff split: prod.splits)
  have lm: "length (region L c s1) = length ?m"
    using s1(2) assms(2) by (auto simp: attached_def region_def)
  from interprocess.set_attached_channel[OF assms(1) s1(2) st(3)[of t], of
      "(channel_of ?m)\<lparr>ch_time := t, ch_data := bs\<rparr>" nd]
  obtain s2 where "setDataPacket nd L c (set_data (bs @ drop (length bs) (data_of ?p)) (set_time t ?p)) s1 = Inr s2"
    "channel_of (region L c s2) = (channel_of ?m)\<lparr>ch_time := t, ch_data := bs\<rparr>"
    using st(2)[of t] lm p' s1(2) by (auto simp: siblings_def)
  then show ?thesis using u s1(1,3) get_attached[OF assms(2), of nd]
    by (intro exI[of _ ?p] exI[of _ s1] exI[of _ s2]) simp
qed

lemma demo_region_length: "length (region mem_lib (demo_end m) (demo_bonded t)) = 12"
  by (simp add: region_def demo_end_def demo_bonded_def mem_lib_def)

lemma ipc_update_loses_break_witness:
  "\<exists>s1. breakBond True mem_lib (demo_end SHMEM_SERVER) (demo_bonded 0) = Inr (True, s1) \<and>
     ch_bond (channel_of (region mem_lib (demo_end SHMEM_CLIENT) s1)) = 0"
  using ipc_update_loses_break[OF mem.interprocess_axioms, of "demo_end SHMEM_CLIENT" "demo_bonded 0"
      "demo_end SHMEM_SERVER" "[5, 6]" True 9] demo_region_length
  by (auto simp: demo_bonded_channel demo_attached)

end
