(* ===== verification/Runs.thy ===== *)
theory Runs
  imports Prelude
begin

text \<open>
  Runs of a step relation with labelled steps, and the contracts the concurrent components
  discharge on their own steps: a property of the state that the steps keep, a number the
  steps make smaller, so that every run ends, and one that some steps may raise by one.
\<close>

inductive run :: "('s \<Rightarrow> 'e \<Rightarrow> 's \<Rightarrow> bool) \<Rightarrow> 's \<Rightarrow> 'e list \<Rightarrow> 's \<Rightarrow> bool" for step s where
  run_nil: "run step s [] s"
| run_snoc: "run step s es s1 \<Longrightarrow> step s1 e s2 \<Longrightarrow> run step s (es @ [e]) s2"

inductive_cases run_nilE: "run step s [] s'"
inductive_cases run_snocE: "run step s (es @ [e]) s'"

lemma runI: "run step s es s1 \<Longrightarrow> step s1 e s2 \<Longrightarrow> es' = es @ [e] \<Longrightarrow> run step s es' s2"
  by (simp add: run_snoc)

lemma run_one: "step s e s' \<Longrightarrow> run step s [e] s'"
  using run_snoc[OF run_nil, of step s e s'] by simp

lemma run_append: "run step s0 es s1 \<Longrightarrow> run step s1 fs s2 \<Longrightarrow> run step s0 (es @ fs) s2"
proof (induction fs arbitrary: s2 rule: rev_induct)
  case Nil
  then show ?case by (auto elim: run_nilE)
next
  case (snoc f fs)
  from snoc.prems(2) obtain s where s: "run step s1 fs s" "step s f s2" by (auto elim: run.cases)
  from run_snoc[OF snoc.IH[OF snoc.prems(1) s(1)] s(2)] show ?case by simp
qed

lemma run_cons: "step s e s1 \<Longrightarrow> run step s1 es s' \<Longrightarrow> run step s (e # es) s'"
  using run_append[OF run_one[of step], of s e s1 es s'] by simp

lemma run_lastE:
  assumes "run step s (es @ [e]) s'"
  obtains s1 where "run step s es s1" "step s1 e s'"
  using assms by (auto elim: run_snocE)

lemma run_prefix: "run step s (es @ fs) s' \<Longrightarrow> \<exists>s1. run step s es s1 \<and> run step s1 fs s'"
proof (induction fs arbitrary: s' rule: rev_induct)
  case Nil
  then show ?case using run_nil by fastforce
next
  case (snoc f fs)
  from snoc.prems have "run step s ((es @ fs) @ [f]) s'" by simp
  then obtain s1 where s1: "run step s (es @ fs) s1" "step s1 f s'" by (rule run_lastE)
  from snoc.IH[OF s1(1)] s1(2) show ?case using run_snoc by metis
qed

text \<open>A state from which no step of a kind is possible.\<close>

definition at_rest :: "('s \<Rightarrow> 'e \<Rightarrow> 's \<Rightarrow> bool) \<Rightarrow> ('e \<Rightarrow> bool) \<Rightarrow> 's \<Rightarrow> bool" where
  "at_rest step ok s \<longleftrightarrow> (\<forall>e s'. ok e \<longrightarrow> \<not> step s e s')"

subsection \<open>Kept properties\<close>

text \<open>\<open>inv\<close> holds on after every step that is \<open>ok\<close>.\<close>

locale kept =
  fixes step :: "'s \<Rightarrow> 'e \<Rightarrow> 's \<Rightarrow> bool" and ok :: "'e \<Rightarrow> bool" and inv :: "'s \<Rightarrow> bool"
  assumes step_keeps: "step s e s' \<Longrightarrow> ok e \<Longrightarrow> inv s \<Longrightarrow> inv s'"
begin

lemma run_keeps: "run step s es s' \<Longrightarrow> inv s \<Longrightarrow> \<forall>e\<in>set es. ok e \<Longrightarrow> inv s'"
  by (induction rule: run.induct) (auto intro: step_keeps)

end

subsection \<open>Steps that run out\<close>

text \<open>
  Under an invariant every \<open>ok\<close> step lowers \<open>cost\<close>, but for a second kind of step, \<open>waste\<close>,
  that may add one to it. The steps that are no waste are then bounded by the cost at the start
  and the number of wasted ones, and without waste every state runs to rest.
\<close>

locale wasteful =
  fixes step :: "'s \<Rightarrow> 'e \<Rightarrow> 's \<Rightarrow> bool" and waste :: "'e \<Rightarrow> bool" and ok :: "'e \<Rightarrow> bool"
    and inv :: "'s \<Rightarrow> bool" and cost :: "'s \<Rightarrow> nat"
  assumes step_inv: "step s e s' \<Longrightarrow> inv s \<Longrightarrow> waste e \<or> ok e \<Longrightarrow> inv s'"
    and step_pays: "step s e s' \<Longrightarrow> inv s \<Longrightarrow> \<not> waste e \<Longrightarrow> ok e \<Longrightarrow> cost s' < cost s"
    and step_wastes: "step s e s' \<Longrightarrow> inv s \<Longrightarrow> waste e \<Longrightarrow> cost s' \<le> cost s + 1"
begin

lemma run_pays:
  "run step s es s' \<Longrightarrow> inv s \<Longrightarrow> \<forall>e\<in>set es. waste e \<or> ok e \<Longrightarrow>
     inv s' \<and> cost s' + length (filter (\<lambda>e. \<not> waste e) es) \<le> cost s + length (filter waste es)"
proof (induction rule: run.induct)
  case (run_snoc es s1 e s2)
  have i: "inv s1" "cost s1 + length (filter (\<lambda>e. \<not> waste e) es) \<le> cost s + length (filter waste es)"
    using run_snoc by auto
  show ?case
  proof (cases "waste e")
    case True
    then show ?thesis using step_inv[OF run_snoc.hyps(2) i(1)] step_wastes[OF run_snoc.hyps(2) i(1)] i(2) by simp
  next
    case False
    then have "ok e" using run_snoc.prems(2) by simp
    then show ?thesis using step_inv[OF run_snoc.hyps(2) i(1)] step_pays[OF run_snoc.hyps(2) i(1) False] False i(2)
      by simp
  qed
qed simp

lemma runs_to_rest:
  "inv s \<Longrightarrow> \<exists>es s'. run step s es s' \<and> (\<forall>e\<in>set es. ok e \<and> \<not> waste e) \<and> inv s' \<and>
     at_rest step (\<lambda>e. ok e \<and> \<not> waste e) s'"
proof (induction "cost s" arbitrary: s rule: less_induct)
  case less
  show ?case
  proof (cases "at_rest step (\<lambda>e. ok e \<and> \<not> waste e) s")
    case True
    then show ?thesis using run_nil[of step s] less.prems by (intro exI[of _ "[]"] exI[of _ s]) simp
  next
    case False
    then obtain e s1 where e: "ok e" "\<not> waste e" "step s e s1" by (auto simp: at_rest_def)
    from less(1)[OF step_pays[OF e(3) less.prems e(2,1)] step_inv[OF e(3) less.prems]] e(1)
    obtain es s' where r: "run step s1 es s'" "\<forall>e\<in>set es. ok e \<and> \<not> waste e" "inv s'"
      "at_rest step (\<lambda>e. ok e \<and> \<not> waste e) s'" by blast
    from run_append[OF run_one[of step, OF e(3)] r(1)] r(2-4) e(1,2) show ?thesis
      by (intro exI[of _ "[e] @ es"] exI[of _ s']) auto
  qed
qed

end

end
