(* ===== verification/IPC_Threads.thy ===== *)
theory IPC_Threads
  imports IPC_Life Runs "HOL-Library.Sublist"
begin

text \<open>
  \<open>RealTimeIPC\<close> under concurrency. The named mutex is taken once by \<open>getDataPacket\<close> and once
  by \<open>setDataPacket\<close>, not around a method: a writing method is two critical sections with a
  gap, a reading one a single section. The methods are split at the gap, the sections of any
  number of threads are interleaved, and the runs are compared with the sequential channel.
\<close>

subsection \<open>The two sections of a method\<close>

text \<open>
  Up to the gap: the result the method will return, and the packet it will write back, if it
  will. The early returns take no section.
\<close>

definition op_load ::
  "bool \<Rightarrow> ('w, 'h) ipc_lib \<Rightarrow> 'h rtipc \<Rightarrow> ipc_op \<Rightarrow> 'w sys \<Rightarrow> (op_result \<times> packet option) res" where
  "op_load nd L c op s = (case op of
       Op_Bond \<Rightarrow>
         (if dim_with_header c = header_dim then Inr (R_Bool False, None)
          else bind_res (getDataPacket nd L c s) (\<lambda>p.
            Inr (if bond_flag p = 1 then (R_Bool False, None) else (R_Bool True, Some (set_bond_flag 1 p)))))
     | Op_Break \<Rightarrow> bind_res (getDataPacket nd L c s) (\<lambda>p.
         Inr (R_Bool True, Some (set_bond_flag 0 (set_rt_flag 0 p))))
     | Op_Hard \<Rightarrow>
         (if dim_with_header c = header_dim then Inr (R_Bool False, None)
          else bind_res (getDataPacket nd L c s) (\<lambda>p. Inr (R_Bool True, Some (set_rt_flag 1 p))))
     | Op_Soft \<Rightarrow>
         (if dim_with_header c = header_dim then Inr (R_Bool False, None)
          else bind_res (getDataPacket nd L c s) (\<lambda>p. Inr (R_Bool True, Some (set_rt_flag 0 p))))
     | Op_Update t bs \<Rightarrow>
         (let d = dim_with_header c - header_dim in
          if d \<noteq> word_of_nat (length bs) then Inr (R_Code UNMACTHED_DATA_DIMENSION, None)
          else if d \<le> 0 then Inr (R_Code NONE_ERROR, None)
          else bind_res (getDataPacket nd L c s) (\<lambda>p.
            bind_res (if bond_flag p = 1
                then bind_res (memcpy (data_of p) bs (unat d)) (\<lambda>bs'. Inr (set_data bs' (set_time t p)))
                else Inr p) (\<lambda>p'. Inr (R_Code NONE_ERROR, Some p')))))"

text \<open>After the gap: the packet is written, in the section of \<open>setDataPacket\<close>.\<close>

definition op_store ::
  "bool \<Rightarrow> ('w, 'h) ipc_lib \<Rightarrow> 'h rtipc \<Rightarrow> packet option \<Rightarrow> 'w sys \<Rightarrow> 'w sys res" where
  "op_store nd L c q s = (case q of None \<Rightarrow> Inr s | Some p \<Rightarrow> setDataPacket nd L c p s)"

lemma bind_res_assoc: "bind_res (bind_res r f) g = bind_res r (\<lambda>x. bind_res (f x) g)"
  by (cases r) simp_all

text \<open>The two sections of a writing method one after the other, with nothing in the gap, are the
  method itself, faults included, for every object and every state of the system.\<close>

theorem ipc_call_sections:
  "ipc_call nd L c op s =
     bind_res (op_load nd L c op s) (\<lambda>(r, q).
     bind_res (op_store nd L c q s) (\<lambda>s'. Inr (r, s')))"
  by (cases op; cases "getDataPacket nd L c s")
    (simp_all add: ipc_call_def op_load_def op_store_def bond_def breakBond_def setHardRT_def
      setSoftRT_def ipc_update_def bind_res_assoc Let_def)

subsection \<open>Interleaved sections\<close>

text \<open>
  The threads use the objects \<open>ends t\<close>. A call of a writing method is a \<open>Load\<close> and, later, a
  \<open>Store\<close> with the result returned; a reading method (\<open>flush\<close>, \<open>isBonded\<close>, \<open>isHardRT\<close>,
  \<open>dump\<close>) is a \<open>Read\<close> of the packet it gets.
\<close>

datatype 't lock_event = Load 't ipc_op | Store 't op_result | Read 't packet

record ('w, 't) threads =
  th_sys :: "'w sys"
  th_pend :: "'t \<Rightarrow> (op_result \<times> packet option) option"

inductive section_step ::
  "bool \<Rightarrow> ('w, 'h) ipc_lib \<Rightarrow> ('t \<Rightarrow> 'h rtipc) \<Rightarrow> ('w, 't) threads \<Rightarrow> 't lock_event \<Rightarrow> ('w, 't) threads \<Rightarrow> bool"
  for nd L ends where
  step_load: "th_pend st t = None \<Longrightarrow> op_load nd L (ends t) op (th_sys st) = Inr (r, q) \<Longrightarrow>
    section_step nd L ends st (Load t op) (st\<lparr>th_pend := (th_pend st)(t \<mapsto> (r, q))\<rparr>)"
| step_store: "th_pend st t = Some (r, q) \<Longrightarrow> op_store nd L (ends t) q (th_sys st) = Inr s' \<Longrightarrow>
    section_step nd L ends st (Store t r) (st\<lparr>th_sys := s', th_pend := (th_pend st)(t := None)\<rparr>)"
| step_read: "th_pend st t = None \<Longrightarrow> getDataPacket nd L (ends t) (th_sys st) = Inr p \<Longrightarrow>
    section_step nd L ends st (Read t p) st"

inductive_cases section_stepE: "section_step nd L ends st e st'"
inductive_cases load_stepE: "section_step nd L ends st (Load t op) st'"
inductive_cases store_stepE: "section_step nd L ends st (Store t r) st'"
inductive_cases read_stepE: "section_step nd L ends st (Read t p) st'"

text \<open>The reading methods see the system through one packet.\<close>

lemma reads_once:
  assumes "getDataPacket nd L c s = getDataPacket nd L c s'"
  shows "ipc_flush nd L c out n clock s = ipc_flush nd L c out n clock s'"
    "isBonded nd L c s = isBonded nd L c s'" "isHardRT nd L c s = isHardRT nd L c s'"
    "ipc_dump nd L c ptr s = ipc_dump nd L c ptr s'"
  by (simp_all only: ipc_flush_def isBonded_def isHardRT_def ipc_dump_def assms)

subsection \<open>Sections on attached objects\<close>

text \<open>What the region of \<open>n\<close> bytes holds once a packet has been written to it.\<close>

definition packet_channel :: "nat \<Rightarrow> packet \<Rightarrow> channel" where
  "packet_channel n p = channel_of (take n p)"

lemma packet_channel_get:
  "attached L c s \<Longrightarrow> getDataPacket nd L c s = Inr p \<Longrightarrow>
     packet_channel (length (region L c s)) p = channel_of (region L c s)"
  by (auto simp: get_attached packet_channel_def pkt_def)

text \<open>
  \<open>held\<close>: a packet waiting to be written carries the channel \<open>ch\<close>; no packet stands for no
  change of the channel \<open>old\<close>.
\<close>

definition held :: "nat \<Rightarrow> channel \<Rightarrow> packet option \<Rightarrow> channel \<Rightarrow> bool" where
  "held n old q ch = (case q of None \<Rightarrow> ch = old | Some p \<Rightarrow> length p = packet_size \<and> packet_channel n p = ch)"

lemma load_refines:
  assumes a: "attached L c s" and fits: "op_fits op"
  shows "\<exists>q. op_load nd L c op s = Inr (fst (channel_op op (channel_of (region L c s))), q) \<and>
    held (length (region L c s)) (channel_of (region L c s)) q (snd (channel_op op (channel_of (region L c s))))"
proof -
  let ?m = "region L c s"
  note sz = size_attached[OF a] and get = get_attached[OF a, of nd]
  have hl: "header_size \<le> length ?m" "length ?m \<le> packet_size" using sz by auto
  have lp: "length (pkt ?m) = packet_size" using hl by (simp add: length_pkt)
  have pos: "\<not> dim_with_header c - header_dim \<le> 0" using sz by (auto simp: unat_eq_0)
  note fl = pkt_fields(1)[OF hl(1)] take_set_flags[OF hl(1)] channel_of_flags[OF hl(1)]
  note defs = op_load_def held_def packet_channel_def
  show ?thesis
  proof (cases op)
    case (Op_Update t bs)
    have d: "(dim_with_header c - header_dim \<noteq> word_of_nat (length bs)) =
        (length bs \<noteq> length (ch_data (channel_of ?m)))"
      using sz fits Op_Update size_t_eq[of "length ?m - header_size" "length bs"]
      by (auto simp: op_fits_def channel_of_def)
    have st: "memcpy (data_of (pkt ?m)) bs (length bs) = Inr (bs @ replicate (packet_size - length ?m) 0)"
      "channel_of (take (length ?m) (set_data (bs @ replicate (packet_size - length ?m) 0) (set_time t (pkt ?m))))
        = (channel_of ?m)\<lparr>ch_time := t, ch_data := bs\<rparr>"
      "length (set_data (bs @ replicate (packet_size - length ?m) 0) (set_time t (pkt ?m))) = packet_size"
      if "length bs = length (ch_data (channel_of ?m))"
      using store_data[OF hl, of bs] that by (simp_all add: channel_of_def)
    have u: "unat (dim_with_header c - header_dim) = length (ch_data (channel_of ?m))"
      using sz(3) by (simp add: channel_of_def)
    have b: "bond_flag (pkt ?m) = ch_bond (channel_of ?m)" using fl(1) by (simp add: channel_of_def)
    have k: "channel_of (take (length ?m) (pkt ?m)) = channel_of ?m" by (simp add: pkt_def)
    show ?thesis using Op_Update d pos get lp st u b k by (auto simp: defs Let_def)
  qed (use get sz(1) fl lp in \<open>auto simp: defs channel_of_def\<close>)
qed

context interprocess
begin

lemma store_refines:
  assumes "attached L c s" "held (length (region L c s)) (channel_of (region L c s)) q ch"
  shows "\<exists>s'. op_store nd L c q s = Inr s' \<and> siblings L c s s' ch"
proof (cases q)
  case None
  then show ?thesis using assms by (auto simp: op_store_def held_def siblings_def region_def)
next
  case (Some p)
  then show ?thesis using assms set_attached_channel[OF assms(1), of p ch nd]
    by (simp add: op_store_def held_def packet_channel_def)
qed

end

subsection \<open>Runs\<close>

text \<open>All ends are attached to the region \<open>h\<close>, and what it holds is the channel.\<close>

definition ends_on :: "('w, 'h) ipc_lib \<Rightarrow> ('t \<Rightarrow> 'h rtipc) \<Rightarrow> 'h \<Rightarrow> 'w sys \<Rightarrow> bool" where
  "ends_on L ends h s \<longleftrightarrow> (\<forall>t. attached L (ends t) s \<and> shared_map (ends t) = Some h)"

definition size_on :: "('w, 'h) ipc_lib \<Rightarrow> 'h \<Rightarrow> 'w sys \<Rightarrow> nat" where
  "size_on L h s = length (lib_read L h (world s))"

definition channel_on :: "('w, 'h) ipc_lib \<Rightarrow> 'h \<Rightarrow> 'w sys \<Rightarrow> channel" where
  "channel_on L h s = channel_of (lib_read L h (world s))"

definition idle :: "('w, 't) threads \<Rightarrow> bool" where
  "idle st \<longleftrightarrow> th_pend st = (\<lambda>_. None)"

definition event_fits :: "'t lock_event \<Rightarrow> bool" where
  "event_fits e = (case e of Load t op \<Rightarrow> op_fits op | _ \<Rightarrow> True)"

lemma ends_onD:
  assumes "ends_on L ends h s"
  shows "attached L (ends t) s" "shared_map (ends t) = Some h"
    "length (region L (ends t) s) = size_on L h s" "channel_of (region L (ends t) s) = channel_on L h s"
  using assms by (auto simp: ends_on_def region_def size_on_def channel_on_def)

text \<open>What a section does on a region all ends are attached to.\<close>

lemma read_on:
  assumes "section_step nd L ends st (Read t p) st'" "ends_on L ends h (th_sys st)"
  shows "packet_channel (size_on L h (th_sys st)) p = channel_on L h (th_sys st)"
  using assms packet_channel_get[of L "ends t" "th_sys st" nd p]
  by (auto elim!: read_stepE simp: ends_onD)

lemma load_on:
  assumes "section_step nd L ends st (Load t op) st'" "ends_on L ends h (th_sys st)" "op_fits op"
  shows "\<exists>q. st' = st\<lparr>th_pend := (th_pend st)(t \<mapsto> (fst (channel_op op (channel_on L h (th_sys st))), q))\<rparr> \<and>
    held (size_on L h (th_sys st)) (channel_on L h (th_sys st)) q (snd (channel_op op (channel_on L h (th_sys st))))"
  using assms load_refines[of L "ends t" "th_sys st" op nd]
  by (auto elim!: load_stepE simp: ends_onD)

text \<open>What \<open>flush\<close> makes of the packet it reads.\<close>

lemma flush_on:
  assumes "section_step nd L ends st (Read t p) st'" "ends_on L ends h (th_sys st)"
    and "flush_args L (ends t) out n (th_sys st)"
  shows "ipc_flush nd L (ends t) out n clock (th_sys st) =
    Inr (flush_spec (packet_channel (size_on L h (th_sys st)) p) (ends t) clock)"
  by (simp add: flush_refines[OF assms(3)] ends_onD(4)[OF assms(2)] read_on[OF assms(1,2)])

context interprocess
begin

lemma store_on:
  assumes "section_step nd L ends st (Store t r) st'" "ends_on L ends h (th_sys st)"
    and "th_pend st t = Some (r', q)" "held (size_on L h (th_sys st)) (channel_on L h (th_sys st)) q ch"
  shows "ends_on L ends h (th_sys st') \<and> size_on L h (th_sys st') = size_on L h (th_sys st) \<and>
    channel_on L h (th_sys st') = ch \<and> th_pend st' = (th_pend st)(t := None) \<and> r = r'"
proof -
  obtain s' where s': "op_store nd L (ends t) q (th_sys st) = Inr s'" "siblings L (ends t) (th_sys st) s' ch"
    using store_refines[of "ends t" "th_sys st" q ch nd] assms(2,4) by (auto simp: ends_onD)
  have a: "ends_on L ends h s'" "channel_on L h s' = ch"
    using s'(2) ends_onD[OF assms(2)] by (auto simp: siblings_def ends_on_def region_def channel_on_def)
  have "size_on L h s' = size_on L h (th_sys st)"
    using ends_onD(1,3)[OF assms(2), of t] ends_onD(1,3)[OF a(1), of t]
    by (auto simp: attached_def region_def)
  then show ?thesis using assms(1,3) s'(1) a by (auto elim!: store_stepE)
qed

end

subsection \<open>No packet is torn\<close>

definition reading :: "channel \<Rightarrow> b64 \<times> byte list" where
  "reading ch = (ch_time ch, ch_data ch)"

lemma reading_op:
  "reading (snd (channel_op op ch)) = reading ch \<or> (\<exists>t bs. op = Op_Update t bs \<and> reading (snd (channel_op op ch)) = (t, bs))"
  by (cases op) (auto simp: reading_def)

definition readings_from :: "(b64 \<times> byte list) set \<Rightarrow> 't lock_event \<Rightarrow> bool" where
  "readings_from V e = (case e of
     Load t op \<Rightarrow> op_fits op \<and> (case op of Op_Update u bs \<Rightarrow> (u, bs) \<in> V | _ \<Rightarrow> True) | _ \<Rightarrow> True)"

definition readings_in :: "('w, 'h) ipc_lib \<Rightarrow> ('t \<Rightarrow> 'h rtipc) \<Rightarrow> 'h \<Rightarrow> (b64 \<times> byte list) set \<Rightarrow> ('w, 't) threads \<Rightarrow> bool" where
  "readings_in L ends h V st \<longleftrightarrow> ends_on L ends h (th_sys st) \<and> reading (channel_on L h (th_sys st)) \<in> V \<and>
     (\<forall>t r p. th_pend st t = Some (r, Some p) \<longrightarrow> length p = packet_size \<and>
        reading (packet_channel (size_on L h (th_sys st)) p) \<in> V)"

context interprocess
begin

lemma step_readings:
  assumes "section_step nd L ends st e st'" "readings_from V e" "readings_in L ends h V st"
  shows "readings_in L ends h V st' \<and> size_on L h (th_sys st') = size_on L h (th_sys st)"
proof (cases e)
  case (Load t op)
  have f: "op_fits op" using assms(2) Load by (simp add: readings_from_def)
  have o: "ends_on L ends h (th_sys st)" using assms(3) by (simp add: readings_in_def)
  let ?ch = "channel_on L h (th_sys st)"
  obtain q where q: "st' = st\<lparr>th_pend := (th_pend st)(t \<mapsto> (fst (channel_op op ?ch), q))\<rparr>"
    "held (size_on L h (th_sys st)) ?ch q (snd (channel_op op ?ch))"
    using load_on[OF assms(1)[unfolded Load] o f] by blast
  have "reading (snd (channel_op op ?ch)) \<in> V"
    using reading_op[of op ?ch] assms(2,3) Load by (auto simp: readings_from_def readings_in_def)
  then show ?thesis using assms(3) q by (auto simp: readings_in_def held_def)
next
  case (Store t r)
  obtain q where q: "th_pend st t = Some (r, q)" using assms(1) Store by (auto elim: store_stepE)
  let ?n = "size_on L h (th_sys st)" and ?ch = "channel_on L h (th_sys st)"
  let ?new = "case q of None \<Rightarrow> ?ch | Some p \<Rightarrow> packet_channel ?n p"
  have "held ?n ?ch q ?new" "reading ?new \<in> V"
    using assms(3) q by (auto simp: held_def readings_in_def split: option.splits)
  with store_on[OF assms(1)[unfolded Store] _ q, of h ?new] assms(3) show ?thesis
    by (auto simp: readings_in_def)
next
  case (Read t p)
  then show ?thesis using assms by (auto elim: read_stepE)
qed

sublocale readings: kept "section_step nd L ends" "readings_from V" "readings_in L ends h V" for nd ends V h
  by unfold_locales (use step_readings in blast)

lemmas readings_kept = readings.run_keeps

lemma readings_size:
  assumes "run (section_step nd L ends) st es st'" "readings_in L ends h V st" "\<forall>e\<in>set es. readings_from V e"
  shows "size_on L h (th_sys st') = size_on L h (th_sys st)"
  using assms
proof (induction rule: run.induct)
  case (run_snoc es s1 e s2)
  then show ?case using step_readings[OF run_snoc.hyps(2)] readings_kept[OF run_snoc.hyps(1)] by auto
qed simp

end

text \<open>C4: Whatever the interleaving of the threads, the time and the data of a packet that is read
  are those the channel held at the start or both those of one and the same update begun
  before: never the time of one and the data of another, nor a mixture of bytes.\<close>

theorem ipc_reads_untorn:
  assumes "interprocess L" "ends_on L ends h (th_sys st)" "idle st"
    and "run (section_step nd L ends) st (es @ [Read t p]) st'" "\<forall>e\<in>set es. event_fits e"
  shows "let got = packet_channel (size_on L h (th_sys st)) p; ch = channel_on L h (th_sys st)
    in ch_time got = ch_time ch \<and> ch_data got = ch_data ch \<or>
       (\<exists>u time bs. Load u (Op_Update time bs) \<in> set es \<and> ch_time got = time \<and> ch_data got = bs)"
proof -
  let ?V = "insert (reading (channel_on L h (th_sys st))) {(v, bs). \<exists>u. Load u (Op_Update v bs) \<in> set es}"
  obtain s1 where r: "run (section_step nd L ends) st es s1" "section_step nd L ends s1 (Read t p) st'"
    using assms(4) by (rule run_lastE)
  have i: "readings_in L ends h ?V st" using assms(2,3) by (simp add: readings_in_def idle_def)
  have f: "\<forall>e\<in>set es. readings_from ?V e"
    using assms(5) by (auto simp: readings_from_def event_fits_def split: lock_event.splits ipc_op.splits)
  have k: "readings_in L ends h ?V s1" by (rule interprocess.readings_kept[OF assms(1) r(1) i f])
  have "packet_channel (size_on L h (th_sys st)) p = channel_on L h (th_sys s1)"
    using read_on[OF r(2), of h] k interprocess.readings_size[OF assms(1) r(1) i f] by (simp add: readings_in_def)
  then show ?thesis using k by (auto simp: readings_in_def reading_def Let_def)
qed

subsection \<open>Writers that do not overlap\<close>

text \<open>The operations begun and the results returned, in order.\<close>

definition loaded :: "'t lock_event list \<Rightarrow> ipc_op list" where
  "loaded es = concat (map (\<lambda>e. case e of Load t op \<Rightarrow> [op] | _ \<Rightarrow> []) es)"

definition stored :: "'t lock_event list \<Rightarrow> op_result list" where
  "stored es = concat (map (\<lambda>e. case e of Store t r \<Rightarrow> [r] | _ \<Rightarrow> []) es)"

lemma loaded_simps [simp]:
  "loaded [] = []" "loaded (es @ fs) = loaded es @ loaded fs" "loaded [Load t op] = [op]"
  "loaded [Store t r] = []" "loaded [Read t p] = []"
  by (simp_all add: loaded_def)

lemma stored_simps [simp]:
  "stored [] = []" "stored (es @ fs) = stored es @ stored fs" "stored [Load t op] = []"
  "stored [Store t r] = [r]" "stored [Read t p] = []"
  by (simp_all add: stored_def)

text \<open>At every moment at most one writing method is between its two sections.\<close>

definition serial :: "'t lock_event list \<Rightarrow> bool" where
  "serial es \<longleftrightarrow> list_all (\<lambda>as. length (loaded as) \<le> Suc (length (stored as))) (prefixes es)"

lemma serial_snoc:
  "serial (es @ [e]) \<longleftrightarrow> serial es \<and> length (loaded (es @ [e])) \<le> Suc (length (stored (es @ [e])))"
  by (auto simp: serial_def)

lemma serial_prefix: "serial (es @ fs) \<Longrightarrow> serial es"
  by (auto simp: serial_def list_all_iff)

text \<open>The operations that have returned.\<close>

definition finished :: "'t lock_event list \<Rightarrow> ipc_op list" where
  "finished es = take (length (stored es)) (loaded es)"

lemma channel_ops_snoc:
  "channel_ops (ops @ [op]) ch =
     (fst (channel_ops ops ch) @ [fst (channel_op op (snd (channel_ops ops ch)))],
      snd (channel_op op (snd (channel_ops ops ch))))"
  by (induction ops arbitrary: ch) (auto split: prod.splits)

text \<open>
  The invariant of such a run: either no method is in its gap, or the last one begun is, and
  holds the packet its operation makes of the channel.
\<close>

definition in_step :: "('w, 'h) ipc_lib \<Rightarrow> 'h \<Rightarrow> channel \<Rightarrow> 't lock_event list \<Rightarrow> ('w, 't) threads \<Rightarrow> bool" where
  "in_step L h ch0 es st \<longleftrightarrow>
     (let ch = channel_on L h (th_sys st) in
      channel_ops (finished es) ch0 = (stored es, ch) \<and>
      (length (loaded es) = length (stored es) \<and> idle st \<or>
       (\<exists>op t q. loaded es = finished es @ [op] \<and> th_pend st = [t \<mapsto> (fst (channel_op op ch), q)] \<and>
          length (finished es) = length (stored es) \<and>
          held (size_on L h (th_sys st)) ch q (snd (channel_op op ch)))))"

lemma in_step_load:
  assumes "section_step nd L ends st (Load t op) st'" "ends_on L ends h (th_sys st)" "op_fits op"
    and "in_step L h ch0 es st" "length (loaded (es @ [Load t op])) \<le> Suc (length (stored (es @ [Load t op])))"
  shows "in_step L h ch0 (es @ [Load t op]) st' \<and> th_sys st' = th_sys st"
proof -
  have l: "length (loaded es) = length (stored es)" "idle st"
    using assms(4,5) by (auto simp: in_step_def Let_def)
  let ?ch = "channel_on L h (th_sys st)"
  obtain q where q: "st' = st\<lparr>th_pend := (th_pend st)(t \<mapsto> (fst (channel_op op ?ch), q))\<rparr>"
    "held (size_on L h (th_sys st)) ?ch q (snd (channel_op op ?ch))"
    using load_on[OF assms(1-3)] by blast
  have f: "finished (es @ [Load t op]) = loaded es" "finished es = loaded es"
    using l(1) by (simp_all add: finished_def)
  have "th_pend st' = [t \<mapsto> (fst (channel_op op ?ch), q)]" "th_sys st' = th_sys st"
    using q(1) l(2) by (simp_all add: idle_def)
  moreover have "channel_ops (loaded es) ch0 = (stored es, ?ch)"
    using assms(4) f(2) by (simp add: in_step_def Let_def)
  ultimately show ?thesis using l(1) q(2)
    by (simp only: in_step_def Let_def f loaded_simps stored_simps append_Nil2) blast
qed

context interprocess
begin

lemma in_step_store:
  assumes "section_step nd L ends st (Store t r) st'" "ends_on L ends h (th_sys st)" "in_step L h ch0 es st"
  shows "in_step L h ch0 (es @ [Store t r]) st' \<and> ends_on L ends h (th_sys st') \<and>
    size_on L h (th_sys st') = size_on L h (th_sys st)"
proof -
  let ?ch = "channel_on L h (th_sys st)"
  have "th_pend st t \<noteq> None" using assms(1) by (auto elim: store_stepE)
  then obtain op q where o: "loaded es = finished es @ [op]" "th_pend st = [t \<mapsto> (fst (channel_op op ?ch), q)]"
    "length (finished es) = length (stored es)" "held (size_on L h (th_sys st)) ?ch q (snd (channel_op op ?ch))"
    "channel_ops (finished es) ch0 = (stored es, ?ch)"
    using assms(3) by (fastforce simp: in_step_def Let_def idle_def split: if_splits)
  have p: "th_pend st t = Some (fst (channel_op op ?ch), q)" using o(2) by simp
  have n: "length (loaded es) = Suc (length (stored es))"
    using o(3) by (subst o(1)) simp
  have f: "finished (es @ [Store t r]) = finished es @ [op]"
    using n by (simp add: finished_def[of "es @ [Store t r]"] o(1)[symmetric])
  show ?thesis using store_on[OF assms(1,2) p o(4)] o(1,3,5) f o(2)
    by (auto simp: in_step_def Let_def channel_ops_snoc idle_def)
qed

lemma serial_in_step:
  assumes "run (section_step nd L ends) st es st'" "ends_on L ends h (th_sys st)" "idle st"
    and "serial es" "\<forall>e\<in>set es. event_fits e"
  shows "in_step L h (channel_on L h (th_sys st)) es st' \<and> ends_on L ends h (th_sys st') \<and>
    size_on L h (th_sys st') = size_on L h (th_sys st)"
  using assms
proof (induction rule: run.induct)
  case run_nil
  then show ?case by (simp add: in_step_def finished_def)
next
  case (run_snoc es s1 e s2)
  have ser: "serial es" "length (loaded (es @ [e])) \<le> Suc (length (stored (es @ [e])))"
    using run_snoc.prems(3) by (simp_all add: serial_snoc del: loaded_simps stored_simps)
  have IH: "in_step L h (channel_on L h (th_sys st)) es s1" "ends_on L ends h (th_sys s1)"
    "size_on L h (th_sys s1) = size_on L h (th_sys st)"
    using run_snoc ser(1) by auto
  show ?case
  proof (cases e)
    case (Load t op)
    then show ?thesis
      using in_step_load[OF run_snoc.hyps(2)[unfolded Load] IH(2) _ IH(1)] ser(2) IH(2,3) run_snoc.prems(4)
      by (auto simp: event_fits_def)
  next
    case (Store t r)
    then show ?thesis using in_step_store[OF run_snoc.hyps(2)[unfolded Store] IH(2,1)] IH(3) by simp
  next
    case (Read t p)
    then have "s2 = s1" using run_snoc.hyps(2) by (auto elim: read_stepE)
    then show ?thesis using IH Read by (simp add: in_step_def finished_def Let_def)
  qed
qed

end

text \<open>C3: As long as no two writing methods overlap, the interleaved threads refine the sequential
  channel: the methods return what it returns and leave what it leaves, in the order they
  were begun, and every packet read, in a gap too, is the channel after the methods that had
  returned by then.\<close>

theorem ipc_serial_refines:
  assumes "interprocess L" "ends_on L ends h (th_sys st)" "idle st"
    and "run (section_step nd L ends) st es st'" "serial es" "\<forall>e\<in>set es. event_fits e"
  shows "channel_ops (finished es) (channel_on L h (th_sys st)) = (stored es, channel_on L h (th_sys st')) \<and>
    (\<forall>as t p bs. es = as @ Read t p # bs \<longrightarrow>
       packet_channel (size_on L h (th_sys st)) p = snd (channel_ops (finished as) (channel_on L h (th_sys st))))"
proof -
  have "packet_channel (size_on L h (th_sys st)) p = snd (channel_ops (finished as) (channel_on L h (th_sys st)))"
    if es: "es = as @ Read t p # bs" for as t p bs
  proof -
    have "run (section_step nd L ends) st ((as @ [Read t p]) @ bs) st'" using assms(4) es by simp
    from run_prefix[of "section_step nd L ends", OF this]
    obtain s2 where "run (section_step nd L ends) st (as @ [Read t p]) s2" by blast
    then obtain s1 where s1: "run (section_step nd L ends) st as s1" "section_step nd L ends s1 (Read t p) s2"
      by (rule run_lastE)
    have k: "in_step L h (channel_on L h (th_sys st)) as s1 \<and> ends_on L ends h (th_sys s1) \<and>
        size_on L h (th_sys s1) = size_on L h (th_sys st)"
      using assms(6) es serial_prefix[of as] assms(5)
      by (intro interprocess.serial_in_step[OF assms(1) s1(1) assms(2,3)]) auto
    then show ?thesis using read_on[OF s1(2), of h] by (simp add: in_step_def Let_def)
  qed
  then show ?thesis
    using interprocess.serial_in_step[OF assms(1,4,2,3,5,6)] by (auto simp: in_step_def Let_def)
qed

text \<open>The events of one writing thread never overlap.\<close>

lemma one_writer_pending:
  assumes "run (section_step nd L ends) st es st'" "idle st" "\<forall>t op. Load t op \<in> set es \<longrightarrow> t = w"
  shows "length (loaded es) = length (stored es) + (if th_pend st' w = None then 0 else 1) \<and>
    (\<forall>t. t \<noteq> w \<longrightarrow> th_pend st' t = None)"
  using assms
proof (induction rule: run.induct)
  case (run_snoc es s1 e s2)
  then show ?case
    by (cases e) (fastforce elim!: section_stepE split: if_splits)+
qed (simp add: idle_def)

lemma one_writer_serial:
  assumes "run (section_step nd L ends) st es st'" "idle st" "\<forall>t op. Load t op \<in> set es \<longrightarrow> t = w"
  shows "serial es"
  using assms
proof (induction rule: run.induct)
  case (run_snoc es s1 e s2)
  have "run (section_step nd L ends) st (es @ [e]) s2"
    using run.run_snoc[of "section_step nd L ends", OF run_snoc.hyps] .
  from one_writer_pending[OF this run_snoc.prems] run_snoc.IH run_snoc.prems
  show ?case by (auto simp: serial_snoc split: if_splits)
qed (simp add: serial_def)

subsection \<open>Every section can be run\<close>

lemma load_run:
  assumes "ends_on L ends h (th_sys st)" "th_pend st t = None" "op_fits op"
  obtains q where "section_step nd L ends st (Load t op)
      (st\<lparr>th_pend := (th_pend st)(t \<mapsto> (fst (channel_op op (channel_on L h (th_sys st))), q))\<rparr>)"
    "held (size_on L h (th_sys st)) (channel_on L h (th_sys st)) q (snd (channel_op op (channel_on L h (th_sys st))))"
    "op_load nd L (ends t) op (th_sys st) = Inr (fst (channel_op op (channel_on L h (th_sys st))), q)"
proof -
  obtain q where q: "op_load nd L (ends t) op (th_sys st) = Inr (fst (channel_op op (channel_on L h (th_sys st))), q)"
    "held (size_on L h (th_sys st)) (channel_on L h (th_sys st)) q (snd (channel_op op (channel_on L h (th_sys st))))"
    using load_refines[OF ends_onD(1)[OF assms(1), of t] assms(3), of nd] ends_onD[OF assms(1), of t] by auto
  show ?thesis by (rule that[OF step_load[where st = st and t = t and ends = ends, OF assms(2) q(1)] q(2,1)])
qed

lemma read_run:
  assumes "ends_on L ends h (th_sys st)" "th_pend st t = None"
  obtains p where "section_step nd L ends st (Read t p) st"
    "packet_channel (size_on L h (th_sys st)) p = channel_on L h (th_sys st)"
proof -
  let ?p = "pkt (region L (ends t) (th_sys st))"
  have g: "getDataPacket nd L (ends t) (th_sys st) = Inr ?p"
    by (rule get_attached[OF ends_onD(1)[OF assms(1)]])
  from that[OF step_read[where st = st and t = t and ends = ends, OF assms(2) g]] packet_channel_get[OF ends_onD(1)[OF assms(1)] g]
  show ?thesis by (simp add: ends_onD[OF assms(1)])
qed

context interprocess
begin

lemma store_run:
  assumes "ends_on L ends h (th_sys st)" "th_pend st t = Some (r, q)"
    and "held (size_on L h (th_sys st)) (channel_on L h (th_sys st)) q ch"
  obtains st' where "section_step nd L ends st (Store t r) st'" "ends_on L ends h (th_sys st')"
    "size_on L h (th_sys st') = size_on L h (th_sys st)" "channel_on L h (th_sys st') = ch"
    "th_pend st' = (th_pend st)(t := None)"
proof -
  obtain s' where s': "op_store nd L (ends t) q (th_sys st) = Inr s'"
    using store_refines[of "ends t" "th_sys st" q ch nd] assms by (auto simp: ends_onD)
  have step: "section_step nd L ends st (Store t r) (st\<lparr>th_sys := s', th_pend := (th_pend st)(t := None)\<rparr>)"
    by (rule step_store[where st = st and t = t and ends = ends, OF assms(2) s'])
  with store_on[OF step assms] show ?thesis by (intro that[OF step]) auto
qed

end

text \<open>C20: No interleaving brings a thread to a fault or leaves it stuck: at every moment of every
  run a thread in the gap of a method can write its packet, and any other can begin any
  method and read.\<close>

theorem ipc_sections_total:
  assumes "interprocess L" "ends_on L ends h (th_sys st)" "idle st"
    and "run (section_step nd L ends) st es st'" "\<forall>e\<in>set es. event_fits e"
  shows "case th_pend st' t of
      Some (r, q) \<Rightarrow> \<exists>st2. section_step nd L ends st' (Store t r) st2
    | None \<Rightarrow> (\<exists>p. section_step nd L ends st' (Read t p) st') \<and>
        (\<forall>op. op_fits op \<longrightarrow> (\<exists>st2. section_step nd L ends st' (Load t op) st2))"
proof -
  have "readings_in L ends h UNIV st" using assms(2,3) by (simp add: readings_in_def idle_def)
  moreover have "\<forall>e\<in>set es. readings_from UNIV e"
    using assms(5) by (auto simp: readings_from_def event_fits_def split: lock_event.splits ipc_op.splits)
  ultimately have k: "readings_in L ends h UNIV st'" by (rule interprocess.readings_kept[OF assms(1,4)])
  then have o: "ends_on L ends h (th_sys st')" by (simp add: readings_in_def)
  show ?thesis
  proof (cases "th_pend st' t")
    case None
    have "\<exists>st2. section_step nd L ends st' (Load t op) st2" if "op_fits op" for op
      by (rule load_run[OF o None that, of nd]) blast
    moreover have "\<exists>p. section_step nd L ends st' (Read t p) st'"
      by (rule read_run[OF o None, of nd]) blast
    ultimately show ?thesis using None by simp
  next
    case (Some x)
    then obtain r q where x: "th_pend st' t = Some (r, q)" by (cases x) auto
    have "held (size_on L h (th_sys st')) (channel_on L h (th_sys st')) q
        (case q of None \<Rightarrow> channel_on L h (th_sys st') | Some p \<Rightarrow> packet_channel (size_on L h (th_sys st')) p)"
      using k x by (auto simp: held_def readings_in_def split: option.splits)
    from interprocess.store_run[OF assms(1) o x this, of nd]
    have "\<exists>st2. section_step nd L ends st' (Store t r) st2" by blast
    then show ?thesis using x by simp
  qed
qed

subsection \<open>Writers that overlap\<close>

text \<open>The operations that write a packet back.\<close>

definition writes :: "ipc_op \<Rightarrow> channel \<Rightarrow> bool" where
  "writes op ch = (case op of Op_Bond \<Rightarrow> ch_bond ch \<noteq> 1 | Op_Update t bs \<Rightarrow> length bs = length (ch_data ch) | _ \<Rightarrow> True)"

lemma writes_held:
  assumes "op_load nd L c op s = Inr (r, q)" "attached L c s" "op_fits op" "writes op (channel_of (region L c s))"
  shows "q \<noteq> None"
  using assms size_attached[OF assms(2)] get_attached[OF assms(2), of nd]
  by (cases op) (auto simp: op_load_def writes_def channel_of_def bind_res_Inr_iff unat_eq_0 pkt_fields(1)
      split: if_splits)

lemma held_Some: "held n old q ch \<Longrightarrow> q \<noteq> None \<Longrightarrow> held n old' q ch"
  by (auto simp: held_def)

context interprocess
begin

text \<open>
  Of two methods that overlap, the one that writes last undoes the other: the channel is what
  it alone makes of the channel before both, and each returns what it alone would.
\<close>

lemma overlap_run:
  assumes o: "ends_on L ends h (th_sys st)" and i: "idle st" and ab: "a \<noteq> b"
    and f: "op_fits A" "op_fits B" and w: "writes A (channel_on L h (th_sys st))"
  shows "\<exists>st'. run (section_step nd L ends) st
      [Load a A, Load b B, Store b (fst (channel_op B (channel_on L h (th_sys st)))),
       Store a (fst (channel_op A (channel_on L h (th_sys st))))] st' \<and>
    channel_on L h (th_sys st') = snd (channel_op A (channel_on L h (th_sys st))) \<and>
    ends_on L ends h (th_sys st') \<and> idle st'"
proof -
  let ?s = "section_step nd L ends" and ?ch = "channel_on L h (th_sys st)" and ?n = "size_on L h (th_sys st)"
  have p0: "th_pend st a = None" using i by (simp add: idle_def)
  obtain q where q: "?s st (Load a A) (st\<lparr>th_pend := (th_pend st)(a \<mapsto> (fst (channel_op A ?ch), q))\<rparr>)"
    "held ?n ?ch q (snd (channel_op A ?ch))" "op_load nd L (ends a) A (th_sys st) = Inr (fst (channel_op A ?ch), q)"
    by (rule load_run[OF o p0 f(1), of nd])
  have qs: "q \<noteq> None" using writes_held[OF q(3) ends_onD(1)[OF o] f(1)] w ends_onD(4)[OF o] by simp
  let ?st1 = "st\<lparr>th_pend := (th_pend st)(a \<mapsto> (fst (channel_op A ?ch), q))\<rparr>"
  have p1: "th_pend ?st1 b = None" "ends_on L ends h (th_sys ?st1)" using i ab o by (simp_all add: idle_def)
  from load_run[OF p1(2,1) f(2), of nd]
  obtain q' where q': "?s ?st1 (Load b B) (?st1\<lparr>th_pend := (th_pend ?st1)(b \<mapsto> (fst (channel_op B ?ch), q'))\<rparr>)"
    "held ?n ?ch q' (snd (channel_op B ?ch))" by auto
  let ?st2 = "?st1\<lparr>th_pend := (th_pend ?st1)(b \<mapsto> (fst (channel_op B ?ch), q'))\<rparr>"
  have st2: "ends_on L ends h (th_sys ?st2)" "th_pend ?st2 b = Some (fst (channel_op B ?ch), q')"
    "held (size_on L h (th_sys ?st2)) (channel_on L h (th_sys ?st2)) q' (snd (channel_op B ?ch))"
    using o q'(2) by simp_all
  obtain st3 where st3: "?s ?st2 (Store b (fst (channel_op B ?ch))) st3" "ends_on L ends h (th_sys st3)"
    "size_on L h (th_sys st3) = ?n" "th_pend st3 = (th_pend ?st2)(b := None)"
    by (rule store_run[OF st2, of nd]) auto
  have h3: "th_pend st3 a = Some (fst (channel_op A ?ch), q)"
    "held (size_on L h (th_sys st3)) (channel_on L h (th_sys st3)) q (snd (channel_op A ?ch))"
    using st3(3,4) ab held_Some[OF q(2) qs] by auto
  obtain st4 where st4: "?s st3 (Store a (fst (channel_op A ?ch))) st4" "ends_on L ends h (th_sys st4)"
    "th_pend st4 = (th_pend st3)(a := None)" "channel_on L h (th_sys st4) = snd (channel_op A ?ch)"
    by (rule store_run[OF st3(2) h3, of nd]) auto
  note steps = run_cons[where step = ?s, OF q(1)] run_cons[where step = ?s, OF q'(1)]
    run_cons[where step = ?s, OF st3(1)] run_one[where step = ?s, OF st4(1)]
  show ?thesis using steps(1)[OF steps(2)[OF steps(3)[OF steps(4)]]] st4(2-4) i st3(4) ab
    by (intro exI[of _ st4]) (auto simp: idle_def)
qed

end

lemma data_fits:
  assumes "ends_on L ends h s" "length bs = length (ch_data (channel_on L h s))"
  shows "op_fits (Op_Update v bs)"
  using assms(2) size_attached(5)[OF ends_onD(1)[OF assms(1)]] ends_onD(3)[OF assms(1)]
  by (simp add: op_fits_def channel_on_def channel_of_def size_on_def)

text \<open>C19: Two writing methods that overlap are not atomic: when an end breaks the bond in the gap
  of another's update, both return as if nothing had happened and the bond and the real-time
  flag are back, with the new data, although after either order of the two calls the channel
  is unbonded.\<close>

theorem ipc_break_lost:
  assumes "interprocess L" "ends_on L ends h (th_sys st)" "idle st" "a \<noteq> b"
    and "ch_bond (channel_on L h (th_sys st)) = 1"
    and "length bs = length (ch_data (channel_on L h (th_sys st)))"
  shows "let ch = channel_on L h (th_sys st) in
    (\<exists>st'. run (section_step nd L ends) st
        [Load a (Op_Update v bs), Load b Op_Break, Store b (R_Bool True), Store a (R_Code NONE_ERROR)] st' \<and>
      channel_on L h (th_sys st') = ch\<lparr>ch_time := v, ch_data := bs\<rparr>) \<and>
    ch_bond (snd (channel_ops [Op_Update v bs, Op_Break] ch)) = 0 \<and>
    ch_bond (snd (channel_ops [Op_Break, Op_Update v bs] ch)) = 0"
  using interprocess.overlap_run[OF assms(1-4) data_fits[OF assms(2,6), of v], of Op_Break nd]  assms(5,6)
  by (auto simp: Let_def op_fits_def writes_def)

text \<open>bond is no test-and-set: two ends that bond an unbonded channel at the same time are both
  told that the bond is theirs, although one after the other the second is refused.\<close>

theorem ipc_bond_twice:
  assumes "interprocess L" "ends_on L ends h (th_sys st)" "idle st" "a \<noteq> b"
    and "ch_bond (channel_on L h (th_sys st)) \<noteq> 1"
  shows "(\<exists>st'. run (section_step nd L ends) st
      [Load a Op_Bond, Load b Op_Bond, Store b (R_Bool True), Store a (R_Bool True)] st') \<and>
    fst (channel_ops [Op_Bond, Op_Bond] (channel_on L h (th_sys st))) = [R_Bool True, R_Bool False]"
  using interprocess.overlap_run[OF assms(1-4), of Op_Bond Op_Bond nd] assms(5)
  by (auto simp: op_fits_def writes_def)

subsection \<open>Witnesses\<close>

text \<open>A client and a server thread on the bonded demonstration region.\<close>

definition demo_ends :: "bool \<Rightarrow> nat rtipc" where
  "demo_ends b = demo_end (if b then SHMEM_CLIENT else SHMEM_SERVER)"

definition demo_threads :: "(mem_world, bool) threads" where
  "demo_threads = \<lparr>th_sys = demo_bonded 0, th_pend = (\<lambda>_. None)\<rparr>"

lemma demo_on:
  "ends_on mem_lib demo_ends 0 (th_sys demo_threads)" "idle demo_threads"
  "channel_on mem_lib 0 (th_sys demo_threads) = \<lparr>ch_bond = 1, ch_rt = 1, ch_time = 0, ch_data = [3, 4]\<rparr>"
proof -
  have m: "shared_map (demo_ends b) = Some 0" for b by (simp add: demo_ends_def demo_attached)
  then show o: "ends_on mem_lib demo_ends 0 (th_sys demo_threads)"
    by (auto simp: ends_on_def demo_ends_def demo_threads_def demo_bonded_channel)
  show "idle demo_threads" by (simp add: idle_def demo_threads_def)
  show "channel_on mem_lib 0 (th_sys demo_threads) = \<lparr>ch_bond = 1, ch_rt = 1, ch_time = 0, ch_data = [3, 4]\<rparr>"
    using ends_onD(4)[OF o, of True] by (simp add: demo_ends_def demo_threads_def demo_bonded_channel)
qed

lemma ipc_break_lost_witness:
  "\<exists>st'. run (section_step True mem_lib demo_ends) demo_threads
      [Load True (Op_Update 7 [5, 6]), Load False Op_Break, Store False (R_Bool True), Store True (R_Code NONE_ERROR)] st' \<and>
    channel_on mem_lib 0 (th_sys st') = \<lparr>ch_bond = 1, ch_rt = 1, ch_time = 7, ch_data = [5, 6]\<rparr>"
  using ipc_break_lost[OF mem.interprocess_axioms demo_on(1,2), of True False "[5, 6]" True 7]
  by (simp add: demo_on(3) Let_def)

lemma ipc_reads_untorn_witness:
  "\<exists>p st'. run (section_step True mem_lib demo_ends) demo_threads
      ([Load True (Op_Update 7 [5, 6]), Load False Op_Break, Store False (R_Bool True), Store True (R_Code NONE_ERROR)]
        @ [Read False p]) st' \<and>
    (let got = packet_channel (size_on mem_lib 0 (th_sys demo_threads)) p in
      ch_time got = 0 \<and> ch_data got = [3, 4] \<or> ch_time got = 7 \<and> ch_data got = [5, 6])"
proof -
  let ?es = "[Load True (Op_Update 7 [5, 6]), Load False Op_Break, Store False (R_Bool True), Store True (R_Code NONE_ERROR)]"
  let ?s = "section_step True mem_lib demo_ends"
  obtain st' where r: "run ?s demo_threads ?es st'" "ends_on mem_lib demo_ends 0 (th_sys st')" "idle st'"
    using interprocess.overlap_run[OF mem.interprocess_axioms demo_on(1,2), of True False
        "Op_Update 7 [5, 6]" Op_Break True]
    by (auto simp: demo_on(3) op_fits_def writes_def)
  have n: "th_pend st' False = None" using r(3) by (simp add: idle_def)
  obtain p where p: "?s st' (Read False p) st'" by (rule read_run[OF r(2) n])
  have r': "run ?s demo_threads (?es @ [Read False p]) st'" by (rule run_snoc[where step = ?s, OF r(1) p])
  have "\<forall>e\<in>set ?es. event_fits e" by (simp add: event_fits_def op_fits_def)
  from ipc_reads_untorn[OF mem.interprocess_axioms demo_on(1,2) r' this] r'
  show ?thesis by (intro exI[of _ p] exI[of _ st']) (auto simp: demo_on(3) Let_def)
qed

lemma ipc_serial_refines_witness:
  "\<exists>st'. run (section_step True mem_lib demo_ends) demo_threads [Load True Op_Soft, Store True (R_Bool True)] st' \<and>
    channel_on mem_lib 0 (th_sys st') = \<lparr>ch_bond = 1, ch_rt = 0, ch_time = 0, ch_data = [3, 4]\<rparr>"
proof -
  let ?s = "section_step True mem_lib demo_ends" and ?es = "[Load True Op_Soft, Store True (R_Bool True)]"
  have f: "op_fits Op_Soft" "th_pend demo_threads True = None"
    using demo_on(2) by (simp_all add: op_fits_def idle_def)
  from load_run[OF demo_on(1) f(2,1), of True]
  obtain q where q: "?s demo_threads (Load True Op_Soft) (demo_threads\<lparr>th_pend := (th_pend demo_threads)(True \<mapsto> (R_Bool True, q))\<rparr>)"
    "held (size_on mem_lib 0 (th_sys demo_threads)) (channel_on mem_lib 0 (th_sys demo_threads)) q
       (snd (channel_op Op_Soft (channel_on mem_lib 0 (th_sys demo_threads))))" by auto
  let ?st = "demo_threads\<lparr>th_pend := (th_pend demo_threads)(True \<mapsto> (R_Bool True, q))\<rparr>"
  have st: "ends_on mem_lib demo_ends 0 (th_sys ?st)" "th_pend ?st True = Some (R_Bool True, q)"
    "held (size_on mem_lib 0 (th_sys ?st)) (channel_on mem_lib 0 (th_sys ?st)) q
       (snd (channel_op Op_Soft (channel_on mem_lib 0 (th_sys demo_threads))))"
    using demo_on(1) q(2) by simp_all
  obtain st' where "?s ?st (Store True (R_Bool True)) st'"
    by (rule interprocess.store_run[OF mem.interprocess_axioms st, of True])
  from run_cons[where step = ?s, OF q(1) run_one[where step = ?s, OF this]]
  have r: "run ?s demo_threads ?es st'" .
  have "serial ?es" "\<forall>e\<in>set ?es. event_fits e"
    by (simp_all add: serial_def loaded_def stored_def event_fits_def op_fits_def)
  from ipc_serial_refines[OF mem.interprocess_axioms demo_on(1,2) r this] r show ?thesis
    by (intro exI[of _ st']) (simp add: demo_on(3) finished_def loaded_def stored_def)
qed

lemma ipc_sections_total_witness:
  "\<exists>st2. section_step True mem_lib demo_ends demo_threads (Load False Op_Break) st2"
  using ipc_sections_total[OF mem.interprocess_axioms demo_on(1,2) run_nil, of True False]
  by (simp add: demo_threads_def op_fits_def)

lemma ipc_bond_twice_witness:
  "\<exists>st'. run (section_step True mem_lib demo_ends) (demo_threads\<lparr>th_sys := demo_world\<rparr>)
     [Load True Op_Bond, Load False Op_Bond, Store False (R_Bool True), Store True (R_Bool True)] st'"
proof -
  let ?st = "demo_threads\<lparr>th_sys := demo_world\<rparr>"
  have o: "ends_on mem_lib demo_ends 0 (th_sys ?st)"
    by (auto simp: ends_on_def demo_ends_def demo_attached)
  have i: "idle ?st" using demo_on(2) by (simp add: idle_def)
  have "ch_bond (channel_on mem_lib 0 (th_sys ?st)) \<noteq> 1"
    using ends_onD(4)[OF o, of True, symmetric] by (simp add: demo_ends_def demo_attached demo_channel)
  from ipc_bond_twice[OF mem.interprocess_axioms o i _ this, of True False True] show ?thesis by simp
qed

end
