(* ===== verification/IPC_Stream.thy ===== *)
theory IPC_Stream
  imports IPC_Flush
begin

text \<open>
  A writer and a reader in step: a client end that updates the channel once a cycle with its
  clock as the time stamp, and a server end that flushes after each update. When the cycle is
  neither too short nor too long for the watchdog, no flush raises an alarm.
\<close>

subsection \<open>The cycles\<close>

text \<open>
  One cycle is the time the writer stamps, the data, and the clock the reader finds. What is
  kept of it is the code, the time and the buffer that \<open>flush\<close> hands out.
\<close>

fun ipc_stream ::
  "bool \<Rightarrow> ('w, 'h) ipc_lib \<Rightarrow> 'h rtipc \<Rightarrow> 'h rtipc \<Rightarrow> flush_out \<Rightarrow> size_t
     \<Rightarrow> (timespec \<times> byte list \<times> timespec) list \<Rightarrow> 'w sys \<Rightarrow> (error_code \<times> b64 \<times> byte list) list res" where
  "ipc_stream nd L wr rd out n [] s = Inr []"
| "ipc_stream nd L wr rd out n ((k, bs, clock) # xs) s =
     bind_res (ipc_update nd L wr bs (timer_to_s k) n s) (\<lambda>(e, s1).
     bind_res (ipc_flush nd L rd out n clock s1) (\<lambda>(e', out1, rd1).
     bind_res (ipc_stream nd L wr rd1 out1 n xs s1) (\<lambda>rs.
       Inr ((e', fo_time out1, fo_buffer out1) # rs))))"

text \<open>
  The pace: from one stamp to the next more than the ten microseconds \<open>flush\<close> takes for no
  progress and less than the watchdog period \<open>w\<close>; the nanoseconds on both sides are what the
  arithmetic on doubles can lose within the first 97 days.
\<close>

fun paced :: "rat \<Rightarrow> nat \<Rightarrow> timespec \<Rightarrow> (timespec \<times> byte list \<times> timespec) list \<Rightarrow> bool" where
  "paced w len k0 [] \<longleftrightarrow> True"
| "paced w len k0 ((k, bs, clock) # xs) \<longleftrightarrow>
     early_clock k \<and> length bs = len \<and> 10004 \<le> total_ns k - total_ns k0 \<and>
     of_int (total_ns k - total_ns k0) / 10 ^ 9 < w - 2 / 10 ^ 9 \<and> paced w len k xs"

subsection \<open>The latency in range\<close>

lemma tick_eps_bound:
  obtains e where "fp_of tick_eps = Fin e" "e \<le> 1 / 100000 + 1 / 10 ^ 9"
proof -
  have v: "fp_of tick_eps = Fin (rnd (1 / 100000))"
    unfolding b64_lit_def by (rule fp_of_round, rule fits64_small) simp
  have "\<bar>rnd (1 / 100000) - 1 / 100000\<bar> \<le> 2 powi (0 - 53)"
    by (rule rnd_error) (simp_all add: power_int_def)
  moreover have "(2 powi (0 - 53) :: rat) \<le> 1 / 10 ^ 9" by (simp add: power_int_def power_divide)
  ultimately have "rnd (1 / 100000) \<le> 1 / 100000 + 1 / 10 ^ 9" by linarith
  with v show ?thesis by (rule that)
qed

lemma flush_watchdog_in_range:
  assumes "fp_of l = Fin e" "fp_of wd = Fin w" "e < w" "1 / 100000 + 1 / 10 ^ 9 < e"
  shows "flush_watchdog wd st l now = (NONE_ERROR, b64_of_int (-1))"
proof -
  obtain t where t: "fp_of tick_eps = Fin t" "t \<le> 1 / 100000 + 1 / 10 ^ 9" by (rule tick_eps_bound)
  then have "t < e" using assms(4) by linarith
  then show ?thesis
    using assms(3) by (simp add: flush_watchdog_def b64_less_val[OF assms(1,2)] b64_less_val[OF t(1) assms(1)])
qed

lemma latency_in_range:
  assumes "early_clock k" "early_clock k0" "10004 \<le> total_ns k - total_ns k0"
    and "of_int (total_ns k - total_ns k0) / 10 ^ 9 < w - 2 / 10 ^ 9" "fp_of wd = Fin w"
  shows "flush_watchdog wd st (b64_sub (timer_to_s k) (timer_to_s k0)) now = (NONE_ERROR, b64_of_int (-1))"
proof -
  obtain e where e: "fp_of (b64_sub (timer_to_s k) (timer_to_s k0)) = Fin e"
    "\<bar>e - of_int (total_ns k - total_ns k0) / 10 ^ 9\<bar> \<le> 2 / 10 ^ 9"
    using elapsed_close[of k k0] assms(1,2) unfolding early_clock_def by blast
  have "(of_int 10004 :: rat) \<le> of_int (total_ns k - total_ns k0)" using assms(3) by (simp only: of_int_le_iff)
  then have "(10004 :: rat) / 10 ^ 9 \<le> of_int (total_ns k - total_ns k0) / 10 ^ 9"
    by (intro divide_right_mono) simp_all
  then have "(1 / 100000 + 1 / 10 ^ 9 :: rat) < of_int (total_ns k - total_ns k0) / 10 ^ 9 - 2 / 10 ^ 9 "
    by simp
  then show ?thesis using e assms(4) by (intro flush_watchdog_in_range[OF e(1) assms(5)]) linarith+
qed

subsection \<open>A flush in step\<close>

definition in_pace :: "channel \<Rightarrow> 'h rtipc \<Rightarrow> rat \<Rightarrow> timespec \<Rightarrow> bool" where
  "in_pace ch rd w k0 \<longleftrightarrow> access_mode rd = SHMEM_SERVER \<and> ch_bond ch = 1 \<and>
     fp_of (watchdog rd) = Fin w \<and> data_time_prev rd = timer_to_s k0 \<and> early_clock k0"

lemma flush_in_pace:
  assumes "in_pace ch rd w k0" "early_clock k" "10004 \<le> total_ns k - total_ns k0"
    and "of_int (total_ns k - total_ns k0) / 10 ^ 9 < w - 2 / 10 ^ 9" "ch_time ch = timer_to_s k"
  obtains out' rd' where "flush_spec ch rd clock = (NONE_ERROR, out', rd')"
    "fo_time out' = timer_to_s k" "fo_buffer out' = ch_data ch" "in_pace ch rd' w k"
    "shared_map rd' = shared_map rd" "\<And>L s. attached L rd' s = attached L rd s"
  using assms latency_in_range[OF assms(2) _ assms(3,4), of "watchdog rd"]
  by (auto simp: in_pace_def flush_spec_def isClient_def Let_def)

text \<open>The update of a cycle, with the size the caller passes.\<close>

context interprocess
begin

lemma update_on:
  assumes "attached L wr s" "ch_bond (channel_of (region L wr s)) = 1"
    and "length bs = length (ch_data (channel_of (region L wr s)))" "n = word_of_nat (length bs)"
  obtains s1 where "ipc_update nd L wr bs t n s = Inr (NONE_ERROR, s1)"
    "siblings L wr s s1 ((channel_of (region L wr s))\<lparr>ch_time := t, ch_data := bs\<rparr>)"
proof -
  have "op_fits (Op_Update t bs)"
    using assms(3) size_attached(5)[OF assms(1)] by (simp add: op_fits_def channel_of_def)
  from update_refines[OF assms(1) this, of nd] show ?thesis
    using assms(2-4) that by (auto simp: ipc_call_def bind_res_Inr_iff split: prod.splits)
qed

end

text \<open>A writing and a reading end on one region, at the start of a cycle.\<close>

definition in_step_ends ::
  "('w, 'h) ipc_lib \<Rightarrow> 'h rtipc \<Rightarrow> 'h rtipc \<Rightarrow> rat \<Rightarrow> nat \<Rightarrow> timespec \<Rightarrow> 'w sys \<Rightarrow> bool" where
  "in_step_ends L wr rd w len k0 s \<longleftrightarrow> attached L wr s \<and> attached L rd s \<and> shared_map wr = shared_map rd \<and>
     length (ch_data (channel_of (region L rd s))) = len \<and> in_pace (channel_of (region L rd s)) rd w k0"

lemma region_shared: "shared_map c = shared_map c' \<Longrightarrow> region L c s = region L c' s"
  by (simp add: region_def)

context interprocess
begin

lemma cycle_in_step:
  assumes "in_step_ends L wr rd w len k0 s" "paced w len k0 [(k, bs, clock)]"
    and "length (fo_buffer out) = len" "n = word_of_nat len"
  obtains s1 out1 rd1 where "ipc_update nd L wr bs (timer_to_s k) n s = Inr (NONE_ERROR, s1)"
    "ipc_flush nd L rd out n clock s1 = Inr (NONE_ERROR, out1, rd1)" "fo_time out1 = timer_to_s k"
    "fo_buffer out1 = bs" "in_step_ends L wr rd1 w len k s1"
proof -
  let ?ch = "channel_of (region L rd s)" and ?new = "(channel_of (region L rd s))\<lparr>ch_time := timer_to_s k, ch_data := bs\<rparr>"
  have r: "region L wr s = region L rd s" for s using assms(1) by (intro region_shared) (simp add: in_step_ends_def)
  have b: "attached L wr s" "ch_bond (channel_of (region L wr s)) = 1"
    "length bs = length (ch_data (channel_of (region L wr s)))" "n = word_of_nat (length bs)"
    using assms by (simp_all add: in_step_ends_def in_pace_def r)
  obtain s1 where s1: "ipc_update nd L wr bs (timer_to_s k) n s = Inr (NONE_ERROR, s1)"
    "siblings L wr s s1 ?new" by (rule update_on[OF b, of nd "timer_to_s k"]) (simp add: r)
  have a: "attached L wr s1" "attached L rd s1" "channel_of (region L rd s1) = ?new"
    using s1(2) assms(1) by (auto simp: siblings_def in_step_ends_def)
  have f: "flush_args L rd out n s1" using a assms by (simp add: flush_args_def)
  have p: "in_pace ?new rd w k0" using assms(1) by (simp add: in_step_ends_def in_pace_def)
  have q: "early_clock k" "10004 \<le> total_ns k - total_ns k0"
    "of_int (total_ns k - total_ns k0) / 10 ^ 9 < w - 2 / 10 ^ 9" using assms(2) by simp_all
  obtain out1 rd1 where f1: "flush_spec ?new rd clock = (NONE_ERROR, out1, rd1)"
    "fo_time out1 = timer_to_s k" "fo_buffer out1 = ch_data ?new" "in_pace ?new rd1 w k"
    "shared_map rd1 = shared_map rd" "attached L rd1 s1 = attached L rd s1"
    by (rule flush_in_pace[OF p q]) auto
  have "in_step_ends L wr rd1 w len k s1"
    using f1(4-6) a assms(1,2) region_shared[OF f1(5), of L s1] by (simp add: in_step_ends_def)
  with s1(1) f1(2,3) show ?thesis using that flush_refines[OF f, of nd clock] a(3) f1(1) by simp
qed

lemma stream_in_step:
  assumes "in_step_ends L wr rd w len k0 s" "paced w len k0 xs"
    and "length (fo_buffer out) = len" "n = word_of_nat len"
  shows "ipc_stream nd L wr rd out n xs s = Inr (map (\<lambda>(k, bs, clock). (NONE_ERROR, timer_to_s k, bs)) xs)"
  using assms(1-3)
proof (induction xs arbitrary: rd k0 s out)
  case (Cons x xs)
  obtain k bs clock where x: "x = (k, bs, clock)" by (cases x) auto
  have p: "paced w len k0 [(k, bs, clock)]" "paced w len k xs" "length bs = len" using Cons.prems(2) x by auto
  obtain s1 out1 rd1 where c: "ipc_update nd L wr bs (timer_to_s k) n s = Inr (NONE_ERROR, s1)"
    "ipc_flush nd L rd out n clock s1 = Inr (NONE_ERROR, out1, rd1)" "fo_time out1 = timer_to_s k"
    "fo_buffer out1 = bs" "in_step_ends L wr rd1 w len k s1"
    by (rule cycle_in_step[OF Cons.prems(1) p(1) Cons.prems(3) assms(4), of nd])
  from Cons.IH[OF c(5) p(2)] c p(3) x show ?case by simp
qed simp

end

text \<open>C7: No false alarm: on a bonded channel whose last time stamp the server has seen, and whose
  server has a finite watchdog period, let a writer update with data of the region's size
  and stamps taken within the first 97 days (normalised, seconds from 0 to below 2^23 - 1;
  the stamp seen before as well), each at least 10004 ns after the one before and less than
  the watchdog period minus 2 ns after it. Then every flush that follows an update, into a
  buffer of the region's size, returns NONE_ERROR, that update's time and exactly its data,
  in hard and in soft real time and whatever the reader's clock says.\<close>

theorem ipc_stream_no_alarm:
  assumes "interprocess L" "in_step_ends L wr rd w (length (fo_buffer out)) k0 s"
    and "paced w (length (fo_buffer out)) k0 xs"
  shows "ipc_stream nd L wr rd out (word_of_nat (length (fo_buffer out))) xs s =
    Inr (map (\<lambda>(k, bs, clock). (NONE_ERROR, timer_to_s k, bs)) xs)"
  by (rule interprocess.stream_in_step[OF assms refl refl])

lemma ipc_stream_no_alarm_witness:
  "ipc_stream True mem_lib (demo_end SHMEM_CLIENT)
      (demo_end SHMEM_SERVER\<lparr>data_time_prev := timer_to_s \<lparr>tv_sec = 4, tv_nsec = 0\<rparr>\<rparr>) demo_out 2
      [(\<lparr>tv_sec = 4, tv_nsec = 500000000\<rparr>, [1, 2], \<lparr>tv_sec = 0, tv_nsec = 0\<rparr>),
       (\<lparr>tv_sec = 5, tv_nsec = 0\<rparr>, [8, 9], \<lparr>tv_sec = 90, tv_nsec = 0\<rparr>)] (demo_bonded (b64_of_int 4)) =
    Inr [(NONE_ERROR, timer_to_s \<lparr>tv_sec = 4, tv_nsec = 500000000\<rparr>, [1, 2]),
         (NONE_ERROR, timer_to_s \<lparr>tv_sec = 5, tv_nsec = 0\<rparr>, [8, 9])]"
proof -
  let ?k0 = "\<lparr>tv_sec = 4, tv_nsec = 0\<rparr>" and ?s = "demo_bonded (b64_of_int 4)"
  let ?rd = "demo_end SHMEM_SERVER\<lparr>data_time_prev := timer_to_s ?k0\<rparr>"
  have r: "region mem_lib ?rd ?s = region mem_lib (demo_end SHMEM_SERVER) ?s" by (simp add: region_def)
  have "in_step_ends mem_lib (demo_end SHMEM_CLIENT) ?rd 1 (length (fo_buffer demo_out)) ?k0 ?s"
    using b64_of_int_val[of 1]
    by (simp add: in_step_ends_def in_pace_def r demo_bonded_channel demo_attached demo_out_def demo_watchdog
        early_clock_def normalised_def)
  from ipc_stream_no_alarm[OF mem.interprocess_axioms this] show ?thesis
    by (simp add: demo_out_def early_clock_def normalised_def total_ns_def del: ipc_stream.simps)
qed

end
