(* ===== verification/IPC_Errors.thy ===== *)
theory IPC_Errors
  imports RealTime_IPC
begin

text \<open>The texts for the error codes of a pipe.\<close>

lemma not_recognized_inj: "not_recognized a = not_recognized b \<longleftrightarrow> a = b"
  by (simp add: not_recognized_def string_of_int_inj)

lemma not_recognized_head: "\<exists>r. not_recognized v = CHR ''v'' # r"
  by (simp add: not_recognized_def)

lemma not_recognized_ne: "c \<noteq> CHR ''v'' \<Longrightarrow> not_recognized v \<noteq> c # r" "c \<noteq> CHR ''v'' \<Longrightarrow> c # r \<noteq> not_recognized v"
  using not_recognized_head[of v] by auto

text \<open>The texts of the create, read and write errors of a pipe determine the error code, the codes
  without a text of their own included.\<close>

theorem rt_pipe_errors_distinct:
  "(rt_pipe_create_error a = rt_pipe_create_error b) = (a = b) \<and>
   (rt_pipe_read_error a = rt_pipe_read_error b) = (a = b) \<and>
   (rt_pipe_write_error a = rt_pipe_write_error b) = (a = b)"
  by (simp_all add: rt_pipe_create_error_def rt_pipe_read_error_def rt_pipe_write_error_def
      not_recognized_ne not_recognized_inj)

end
