(* ===== verification/Circular_Buffer.thy ===== *)
theory Circular_Buffer
  imports Binary64 Runs
begin

text \<open>
  The thread-safe buffer \<open>circ_buffer\<close> of \<open>include/realtime_utilities/circular_buffer.h\<close>.
  The ring it wraps (\<open>boost::circular_buffer\<close>) is not part of the repository: its operations
  are the fields of a record, and the locale \<open>ring\<close> states what its documentation says of
  them. The methods of \<open>circ_buffer\<close> follow, then the monitor: threads that wait for an
  element and the one of them a push wakes. The theory \<open>Statistics\<close> holds the functions of
  the same file on the elements.
\<close>

subsection \<open>The ring\<close>

text \<open>\<open>rb_set_capacity\<close> is \<open>None\<close> where the library throws.\<close>

record ('b, 'a) ring_lib =
  rb_default :: 'b
  rb_push_back :: "'a \<Rightarrow> 'b \<Rightarrow> 'b"
  rb_push_front :: "'a \<Rightarrow> 'b \<Rightarrow> 'b"
  rb_pop_front :: "'b \<Rightarrow> 'b"
  rb_clear :: "'b \<Rightarrow> 'b"
  rb_set_capacity :: "nat \<Rightarrow> 'b \<Rightarrow> 'b option"
  rb_list :: "'b \<Rightarrow> 'a list"
  rb_capacity :: "'b \<Rightarrow> nat"

text \<open>The last \<open>k\<close> elements of a list.\<close>

definition last_n :: "nat \<Rightarrow> 'a list \<Rightarrow> 'a list" where
  "last_n k xs = drop (length xs - k) xs"

locale ring =
  fixes R :: "('b, 'a) ring_lib"
  assumes default: "rb_list R (rb_default R) = []" "rb_capacity R (rb_default R) = 0"
    and push_back: "rb_list R (rb_push_back R x b) = last_n (rb_capacity R b) (rb_list R b @ [x])"
      "rb_capacity R (rb_push_back R x b) = rb_capacity R b"
    and push_front: "rb_list R (rb_push_front R x b) = take (rb_capacity R b) (x # rb_list R b)"
      "rb_capacity R (rb_push_front R x b) = rb_capacity R b"
    and pop_front: "rb_list R b \<noteq> [] \<Longrightarrow> rb_list R (rb_pop_front R b) = tl (rb_list R b)"
      "rb_list R b \<noteq> [] \<Longrightarrow> rb_capacity R (rb_pop_front R b) = rb_capacity R b"
    and clear: "rb_list R (rb_clear R b) = []" "rb_capacity R (rb_clear R b) = rb_capacity R b"
    and set_capacity: "rb_set_capacity R n b = Some b' \<Longrightarrow> rb_list R b' = take n (rb_list R b)"
      "rb_set_capacity R n b = Some b' \<Longrightarrow> rb_capacity R b' = n"
    and bounded: "length (rb_list R b) \<le> rb_capacity R b"

subsection \<open>The methods\<close>

text \<open>
  The calls that change the buffer; an \<open>int\<close> capacity is converted to \<open>size_t\<close>, so a
  negative one is huge.
\<close>

datatype 'a cb_call = Push_Back 'a | Push_Front 'a | Pop_Front | Clear | Set_Capacity int

fun cb_apply :: "('b, 'a) ring_lib \<Rightarrow> 'a cb_call \<Rightarrow> 'b \<Rightarrow> 'b res" where
  "cb_apply R (Push_Back x) b = Inr (rb_push_back R x b)"
| "cb_apply R (Push_Front x) b = Inr (rb_push_front R x b)"
| "cb_apply R Pop_Front b = Inr (if rb_list R b = [] then b else rb_pop_front R b)"
| "cb_apply R Clear b = Inr (rb_clear R b)"
| "cb_apply R (Set_Capacity n) b =
     (case rb_set_capacity R (nat (n mod 2 ^ 64)) b of
        Some b' \<Rightarrow> Inr b' | None \<Rightarrow> Inl (Uncaught ''set_capacity''))"

definition circ_buffer :: "('b, 'a) ring_lib \<Rightarrow> int \<Rightarrow> 'b res" where
  "circ_buffer R n = cb_apply R (Set_Capacity n) (rb_default R)"

definition cb_size :: "('b, 'a) ring_lib \<Rightarrow> 'b \<Rightarrow> int" where
  "cb_size R b = sint (word_of_nat (length (rb_list R b)) :: 32 word)"

definition cb_empty :: "('b, 'a) ring_lib \<Rightarrow> 'b \<Rightarrow> bool" where
  "cb_empty R b \<longleftrightarrow> rb_list R b = []"

definition cb_full :: "('b, 'a) ring_lib \<Rightarrow> 'b \<Rightarrow> bool" where
  "cb_full R b \<longleftrightarrow> length (rb_list R b) = rb_capacity R b"

definition cb_get :: "('b, 'a) ring_lib \<Rightarrow> 'b \<Rightarrow> 'a list" where
  "cb_get R b = rb_list R b"

text \<open>
  \<open>begin\<close> and \<open>end\<close> (and their \<open>const\<close> forms) as positions; the lock is released when they
  return, so they are meant for a time when no call changes the buffer.
\<close>

definition cb_range :: "('b, 'a) ring_lib \<Rightarrow> 'b \<Rightarrow> nat \<times> nat" where
  "cb_range R b = (0, length (rb_list R b))"

fun cb_calls :: "('b, 'a) ring_lib \<Rightarrow> 'a cb_call list \<Rightarrow> 'b \<Rightarrow> 'b res" where
  "cb_calls R [] b = Inr b"
| "cb_calls R (c # cs) b = bind_res (cb_apply R c b) (cb_calls R cs)"

subsection \<open>The monitor\<close>

text \<open>
  A reader (a thread in \<open>front\<close> or \<open>back\<close>) that finds the buffer empty waits on the
  condition; a push wakes one waiting reader, if there is one; a woken reader looks again.
  A condition may also wake a reader on its own. The code returns a reference, which the model
  reads at once.
\<close>

datatype side = Front | Back

record ('b, 't) monitor =
  mon_cb :: 'b
  waiting :: "('t \<times> side) set"
  woken :: "('t \<times> side) set"

datatype ('t, 'a) mon_event =
    Call "'a cb_call"
  | Ask 't side "'a option"
  | Resume 't side "'a option"
  | Spurious 't side

text \<open>What \<open>front\<close> and \<open>back\<close> return once the buffer is seen not empty.\<close>

definition side_of :: "side \<Rightarrow> 'a list \<Rightarrow> 'a" where
  "side_of d xs = (case d of Front \<Rightarrow> hd xs | Back \<Rightarrow> last xs)"

fun notifies :: "'a cb_call \<Rightarrow> bool" where
  "notifies (Push_Back _) = True"
| "notifies (Push_Front _) = True"
| "notifies _ = False"

definition idle :: "('b, 't) monitor \<Rightarrow> 't \<Rightarrow> bool" where
  "idle m t \<longleftrightarrow> (\<forall>d. (t, d) \<notin> waiting m \<and> (t, d) \<notin> woken m)"

inductive mon_step ::
  "('b, 'a) ring_lib \<Rightarrow> ('b, 't) monitor \<Rightarrow> ('t, 'a) mon_event \<Rightarrow> ('b, 't) monitor \<Rightarrow> bool"
  for R where
  call_quiet: "cb_apply R c (mon_cb m) = Inr b \<Longrightarrow> \<not> notifies c \<or> waiting m = {} \<Longrightarrow>
    mon_step R m (Call c) (m\<lparr>mon_cb := b\<rparr>)"
| call_notify: "cb_apply R c (mon_cb m) = Inr b \<Longrightarrow> notifies c \<Longrightarrow> r \<in> waiting m \<Longrightarrow>
    mon_step R m (Call c) (m\<lparr>mon_cb := b, waiting := waiting m - {r}, woken := insert r (woken m)\<rparr>)"
| ask_wait: "idle m t \<Longrightarrow> rb_list R (mon_cb m) = [] \<Longrightarrow>
    mon_step R m (Ask t d None) (m\<lparr>waiting := insert (t, d) (waiting m)\<rparr>)"
| ask_now: "idle m t \<Longrightarrow> rb_list R (mon_cb m) \<noteq> [] \<Longrightarrow>
    mon_step R m (Ask t d (Some (side_of d (rb_list R (mon_cb m))))) m"
| resume_wait: "(t, d) \<in> woken m \<Longrightarrow> rb_list R (mon_cb m) = [] \<Longrightarrow>
    mon_step R m (Resume t d None)
      (m\<lparr>waiting := insert (t, d) (waiting m), woken := woken m - {(t, d)}\<rparr>)"
| resume_now: "(t, d) \<in> woken m \<Longrightarrow> rb_list R (mon_cb m) \<noteq> [] \<Longrightarrow>
    mon_step R m (Resume t d (Some (side_of d (rb_list R (mon_cb m))))) (m\<lparr>woken := woken m - {(t, d)}\<rparr>)"
| spurious: "(t, d) \<in> waiting m \<Longrightarrow>
    mon_step R m (Spurious t d) (m\<lparr>waiting := waiting m - {(t, d)}, woken := insert (t, d) (woken m)\<rparr>)"

inductive_cases mon_stepE: "mon_step R m e m'"

abbreviation mon_run ::
  "('b, 'a) ring_lib \<Rightarrow> ('b, 't) monitor \<Rightarrow> ('t, 'a) mon_event list \<Rightarrow> ('b, 't) monitor \<Rightarrow> bool"
where
  "mon_run R \<equiv> run (mon_step R)"

lemmas mon_runI = runI[of "mon_step R" for R]

definition mon_init :: "'b \<Rightarrow> ('b, 't) monitor" where
  "mon_init b = \<lparr>mon_cb = b, waiting = {}, woken = {}\<rparr>"

subsection \<open>Lemmas on the ring\<close>

lemma last_n_all: "length xs \<le> k \<Longrightarrow> last_n k xs = xs"
  by (simp add: last_n_def)

lemma last_n_set: "set (last_n k xs) \<subseteq> set xs"
  by (simp add: last_n_def set_drop_subset)

lemma length_last_n [simp]: "length (last_n k xs) = min k (length xs)"
  by (simp add: last_n_def)

lemma last_n_last_n: "last_n k (last_n k xs @ ys) = last_n k (xs @ ys)"
  by (cases "length xs \<le> k") (auto simp: last_n_def add.commute)

context ring
begin

lemmas list_simps = default push_back push_front pop_front clear

text \<open>After any number of pushes at the back the buffer holds the last elements that fit.\<close>

lemma pushes_back:
  "\<exists>b'. cb_calls R (map Push_Back xs) b = Inr b' \<and> rb_capacity R b' = rb_capacity R b \<and>
     rb_list R b' = last_n (rb_capacity R b) (rb_list R b @ xs)"
proof (induction xs arbitrary: b)
  case Nil
  then show ?case using bounded[of b] by (simp add: last_n_all)
next
  case (Cons x xs)
  from Cons.IH[of "rb_push_back R x b"] show ?case
    by (auto simp: push_back last_n_last_n)
qed

lemma calls_capacity:
  assumes "cb_apply R c b = Inr b'" "\<And>n. c \<noteq> Set_Capacity n"
  shows "rb_capacity R b' = rb_capacity R b"
  using assms by (cases c) (auto simp: push_back push_front pop_front clear)

lemma full_iff: "cb_full R b \<longleftrightarrow> \<not> length (rb_list R b) < rb_capacity R b"
  using bounded[of b] by (auto simp: cb_full_def)

end

text \<open>A ring kept as a pair of a capacity and a list.\<close>

definition list_ring :: "(nat \<times> 'a list, 'a) ring_lib" where
  "list_ring = \<lparr>rb_default = (0, []),
     rb_push_back = (\<lambda>x (k, xs). (k, last_n k (take k xs @ [x]))),
     rb_push_front = (\<lambda>x (k, xs). (k, take k (x # take k xs))),
     rb_pop_front = (\<lambda>(k, xs). (k, tl (take k xs))),
     rb_clear = (\<lambda>(k, xs). (k, [])),
     rb_set_capacity = (\<lambda>n (k, xs). if n < 2 ^ 32 then Some (n, take n (take k xs)) else None),
     rb_list = (\<lambda>(k, xs). take k xs), rb_capacity = fst\<rparr>"

interpretation list_ring: ring list_ring
  by unfold_locales (auto simp: list_ring_def last_n_def split: if_splits)

lemma cb_range_get: "cb_range R b = (i, j) \<Longrightarrow> map ((!) (cb_get R b)) [i..<j] = cb_get R b"
  by (auto simp: cb_range_def cb_get_def map_nth)

subsection \<open>Properties of the buffer\<close>

text \<open>C31: A buffer made with capacity n holds, after any number of push_back calls, the last n
  values pushed in their order, and is full exactly when at least n were pushed (a negative
  n is taken modulo 2^64).\<close>

theorem cb_window:
  assumes "ring R" "circ_buffer R n = Inr b"
  shows "\<exists>b'. cb_calls R (map Push_Back xs) b = Inr b' \<and>
    rb_list R b' = last_n (nat (n mod 2 ^ 64)) xs \<and>
    (cb_full R b' \<longleftrightarrow> nat (n mod 2 ^ 64) \<le> length xs)"
proof -
  have b: "rb_list R b = []" "rb_capacity R b = nat (n mod 2 ^ 64)"
    using assms ring.set_capacity[OF assms(1)] ring.default[OF assms(1)]
    by (auto simp: circ_buffer_def split: option.splits)
  from ring.pushes_back[OF assms(1), of xs b] b show ?thesis
    by (auto simp: cb_full_def min_def split: if_splits)
qed

lemma cb_window_witness:
  "\<exists>b'. cb_calls list_ring [Push_Back 1, Push_Back 2, Push_Back (3::nat)] (2, []) = Inr b' \<and>
     rb_list list_ring b' = [2, 3] \<and> cb_full list_ring b'"
  using cb_window[OF list_ring.ring_axioms, of 2 "(2, [])" "[1, 2, 3::nat]"]
  by (auto simp: circ_buffer_def list_ring_def last_n_def)

subsection \<open>Properties of the monitor\<close>

text \<open>The values pushed by an event, and the value a reader gets from one.\<close>

fun pushed :: "('t, 'a) mon_event \<Rightarrow> 'a set" where
  "pushed (Call (Push_Back x)) = {x}"
| "pushed (Call (Push_Front x)) = {x}"
| "pushed _ = {}"

fun answer :: "('t, 'a) mon_event \<Rightarrow> 'a option" where
  "answer (Ask _ _ r) = r"
| "answer (Resume _ _ r) = r"
| "answer _ = None"

lemma side_of_in: "xs \<noteq> [] \<Longrightarrow> side_of d xs \<in> set xs"
  by (cases d) (auto simp: side_of_def)

context ring
begin

lemma pop_set: "rb_list R b \<noteq> [] \<Longrightarrow> set (rb_list R (rb_pop_front R b)) \<subseteq> set (rb_list R b)"
  by (cases "rb_list R b") (auto simp: pop_front)

lemma apply_set:
  assumes "cb_apply R c b = Inr b'"
  shows "set (rb_list R b') \<subseteq> set (rb_list R b) \<union> pushed (Call c)"
proof (cases c)
  case (Push_Back x)
  then show ?thesis using assms last_n_set[of "rb_capacity R b" "rb_list R b @ [x]"]
    by (auto simp: push_back)
next
  case (Push_Front x)
  then show ?thesis using assms set_take_subset[of "rb_capacity R b" "x # rb_list R b"]
    by (auto simp: push_front)
next
  case Pop_Front
  then show ?thesis using assms pop_set by (auto split: if_splits)
next
  case Clear
  then show ?thesis using assms by (auto simp: clear)
next
  case (Set_Capacity n)
  then show ?thesis using assms by (auto simp: set_capacity split: option.splits dest: in_set_takeD)
qed

lemma apply_empty: "cb_apply R c b = Inr b' \<Longrightarrow> \<not> notifies c \<Longrightarrow> rb_list R b = [] \<Longrightarrow> rb_list R b' = []"
  by (cases c) (auto simp: clear set_capacity split: option.splits)

lemma step_values:
  assumes "mon_step R m e m'"
  shows "set (rb_list R (mon_cb m')) \<union> set_option (answer e) \<subseteq> set (rb_list R (mon_cb m)) \<union> pushed e"
  using assms
proof (cases rule: mon_step.cases)
  case (call_quiet c b)
  then show ?thesis using apply_set[of c "mon_cb m" b] by simp
next
  case (call_notify c b r)
  then show ?thesis using apply_set[of c "mon_cb m" b] by simp
qed (auto dest: side_of_in)

lemma run_values:
  "mon_run R m0 es m \<Longrightarrow> set (rb_list R (mon_cb m)) \<union> (\<Union>e\<in>set es. set_option (answer e))
     \<subseteq> set (rb_list R (mon_cb m0)) \<union> (\<Union>e\<in>set es. pushed e)"
proof (induction rule: run.induct)
  case (run_snoc es m1 e m2)
  then show ?case using step_values[OF run_snoc.hyps(2)] by auto
qed simp

end

text \<open>C13: Whatever readers and writers do on a buffer that starts empty, a value that front or
  back returns was pushed before the run ended: no reader gets an element that nobody
  stored.\<close>

theorem mon_values_pushed:
  assumes "ring R" "mon_run R (mon_init b) es m" "rb_list R b = []" "e \<in> set es" "answer e = Some x"
  shows "\<exists>e'\<in>set es. x \<in> pushed e'"
  using ring.run_values[OF assms(1,2)] assms(3-5) by (auto simp: mon_init_def)

text \<open>
  A run on the demonstration ring: two readers wait, one push wakes the first of them, which
  takes the value and leaves it in the buffer.
\<close>

definition demo_events :: "(nat, nat) mon_event list" where
  "demo_events = [Ask 1 Front None, Ask 2 Front None, Call (Push_Back 5), Resume 1 Front (Some 5)]"

lemma mon_values_pushed_witness:
  "\<exists>e'\<in>{Call (Push_Back 5), Ask (1::nat) Front (Some (5::nat))}. 5 \<in> pushed e'"
proof -
  let ?m = "(mon_init (2, []) :: (nat \<times> nat list, nat) monitor)\<lparr>mon_cb := (2, [5])\<rparr>"
  have "mon_step list_ring (mon_init (2, [])) (Call (Push_Back (5::nat)) :: (nat, nat) mon_event) ?m"
    by (rule call_quiet) (auto simp: mon_init_def list_ring_def last_n_def)
  then have "mon_run list_ring (mon_init (2, [])) [Call (Push_Back (5::nat))] ?m"
    using mon_runI[OF run_nil] by fastforce
  moreover have "mon_step list_ring ?m (Ask (1::nat) Front (Some (5::nat))) ?m"
    using ask_now[of ?m 1 list_ring Front] by (simp add: idle_def mon_init_def list_ring_def side_of_def)
  ultimately have "mon_run list_ring (mon_init (2, [])) [Call (Push_Back 5), Ask 1 Front (Some 5)] ?m"
    by (rule mon_runI) simp
  from mon_values_pushed[OF list_ring.ring_axioms this, of "Ask 1 Front (Some 5)" 5] show ?thesis
    by (simp add: list_ring_def)
qed

text \<open>With one reader a wait always has an empty buffer behind it.\<close>

fun reader :: "('t, 'a) mon_event \<Rightarrow> 't set" where
  "reader (Ask t _ _) = {t}"
| "reader (Resume t _ _) = {t}"
| "reader (Spurious t _) = {t}"
| "reader (Call _) = {}"

definition one_reader :: "('b, 'a) ring_lib \<Rightarrow> 't \<Rightarrow> ('b, 't) monitor \<Rightarrow> bool" where
  "one_reader R t m \<longleftrightarrow> (\<exists>d. waiting m \<union> woken m \<subseteq> {(t, d)}) \<and>
     (waiting m \<noteq> {} \<longrightarrow> woken m = {} \<and> rb_list R (mon_cb m) = [])"

context ring
begin

lemma step_one_reader:
  assumes "mon_step R m e m'" "one_reader R t m" "reader e \<subseteq> {t}"
  shows "one_reader R t m'"
  using assms(1)
proof (cases rule: mon_step.cases)
  case (call_quiet c b)
  then show ?thesis using assms(2) apply_empty[of c "mon_cb m" b] by (auto simp: one_reader_def)
next
  case (call_notify c b r)
  then show ?thesis using assms(2) by (auto simp: one_reader_def)
next
  case (ask_wait t' d)
  then have "t' = t" using assms(3) by simp
  moreover have "waiting m = {}" "woken m = {}"
    using assms(2) ask_wait \<open>t' = t\<close> by (auto simp: one_reader_def idle_def)
  ultimately show ?thesis using ask_wait by (auto simp: one_reader_def)
next
  case (resume_wait t' d)
  then show ?thesis using assms(2) by (auto simp: one_reader_def)
qed (use assms(2) in \<open>auto simp: one_reader_def\<close>)

sublocale one_reader: kept "mon_step R" "\<lambda>e. reader e \<subseteq> {t}" "one_reader R t" for t
  by unfold_locales (rule step_one_reader)

text \<open>A waiting reader stays until a push wakes it or the condition does so on its own.\<close>

lemma step_waiting:
  assumes "mon_step R m e m'" "w \<in> waiting m"
    and "\<And>c. e = Call c \<Longrightarrow> \<not> notifies c" "\<And>t d. e \<noteq> Spurious t d"
  shows "w \<in> waiting m'"
  using assms(1)
proof (cases rule: mon_step.cases)
  case (call_notify c b r)
  then show ?thesis using assms(3) by blast
next
  case (spurious t d)
  then show ?thesis using assms(4) by blast
qed (use assms(2) in auto)

sublocale waits: kept "mon_step R" "\<lambda>e. (\<forall>c. e = Call c \<longrightarrow> \<not> notifies c) \<and> (\<forall>t d. e \<noteq> Spurious t d)"
  "\<lambda>m. w \<in> waiting m" for w
  by unfold_locales (use step_waiting in blast)

lemmas run_one_reader = one_reader.run_keeps
lemmas run_waiting = waits.run_keeps

lemma push_stays:
  assumes "0 < rb_capacity R b" "rb_list R b = []"
  shows "rb_list R (rb_push_back R x b) = [x]"
  using assms by (simp add: push_back last_n_all)

end

text \<open>C27: With a single reading thread no wake-up is lost: whenever the reader waits in front or
  back, the buffer is empty.\<close>

theorem mon_single_reader:
  assumes "ring R" "mon_run R (mon_init b) es m" "(\<Union>e\<in>set es. reader e) \<subseteq> {t}" "waiting m \<noteq> {}"
  shows "rb_list R (mon_cb m) = []"
proof -
  have "one_reader R t (mon_init b)" by (simp add: one_reader_def mon_init_def)
  from ring.run_one_reader[OF assms(1,2) this] assms(3,4) show ?thesis
    by (auto simp: one_reader_def)
qed

lemma mon_single_reader_witness:
  "rb_list list_ring (mon_cb ((mon_init (2, [])) \<lparr>waiting := {(1 :: nat, Front)}\<rparr>)) = ([] :: nat list)"
proof -
  let ?m = "(mon_init (2, []))\<lparr>waiting := {(1 :: nat, Front)}\<rparr>"
  have "mon_step list_ring (mon_init (2, [])) (Ask 1 Front (None :: nat option)) ?m"
    using ask_wait[of "mon_init (2, [])" "1 :: nat" "list_ring :: (nat \<times> nat list, nat) ring_lib" Front]
    by (simp add: idle_def mon_init_def list_ring_def)
  then have "mon_run list_ring (mon_init (2, [])) [Ask 1 Front (None :: nat option)] ?m"
    by (rule mon_runI[OF run_nil]) simp
  from mon_single_reader[OF list_ring.ring_axioms this, of 1] show ?thesis by simp
qed

text \<open>C28: With two readers a wake-up can be lost: both wait, one push wakes the first, front
  leaves the element in the buffer, and the second goes on waiting although the buffer is
  not empty, through every later run without another push or a spurious wake-up.\<close>

theorem mon_lost_wakeup:
  assumes "ring R" "0 < rb_capacity R b" "rb_list R b = []" "t1 \<noteq> t2"
  shows "\<exists>m. mon_run R (mon_init b)
      [Ask t1 Front None, Ask t2 Front None, Call (Push_Back x), Resume t1 Front (Some x)] m \<and>
    rb_list R (mon_cb m) = [x] \<and> woken m = {} \<and> waiting m = {(t2, Front)} \<and>
    (\<forall>es m'. mon_run R m es m' \<and>
       (\<forall>e\<in>set es. (\<forall>c. e = Call c \<longrightarrow> \<not> notifies c) \<and> (\<forall>t d. e \<noteq> Spurious t d)) \<longrightarrow>
       (t2, Front) \<in> waiting m')"
proof -
  let ?b = "rb_push_back R x b"
  let ?m1 = "\<lparr>mon_cb = b, waiting = {(t1, Front)}, woken = {}\<rparr>"
  let ?m2 = "\<lparr>mon_cb = b, waiting = {(t2, Front), (t1, Front)}, woken = {}\<rparr>"
  let ?m3 = "\<lparr>mon_cb = ?b, waiting = {(t2, Front)}, woken = {(t1, Front)}\<rparr>"
  let ?m4 = "\<lparr>mon_cb = ?b, waiting = {(t2, Front)}, woken = {}\<rparr>"
  have l: "rb_list R ?b = [x]" by (rule ring.push_stays[OF assms(1-3)])
  have "mon_step R (mon_init b) (Ask t1 Front None) ?m1"
    using ask_wait[of "mon_init b" t1 R Front] assms(3) by (simp add: idle_def mon_init_def)
  then have r1: "mon_run R (mon_init b) [Ask t1 Front None] ?m1" by (rule mon_runI[OF run_nil]) simp
  have "mon_step R ?m1 (Ask t2 Front None) ?m2"
    using ask_wait[of ?m1 t2 R Front] assms(3,4) by (simp add: idle_def)
  then have r2: "mon_run R (mon_init b) [Ask t1 Front None, Ask t2 Front None] ?m2"
    by (rule mon_runI[OF r1]) simp
  have "mon_step R ?m2 (Call (Push_Back x)) ?m3"
    using call_notify[of R "Push_Back x" ?m2 ?b "(t1, Front)"] assms(4)
    by (simp add: insert_Diff_if)
  then have r3: "mon_run R (mon_init b) [Ask t1 Front None, Ask t2 Front None, Call (Push_Back x)] ?m3"
    by (rule mon_runI[OF r2]) simp
  have "mon_step R ?m3 (Resume t1 Front (Some x)) ?m4"
    using resume_now[of t1 Front ?m3 R] l by (simp add: side_of_def)
  then have r4: "mon_run R (mon_init b)
      [Ask t1 Front None, Ask t2 Front None, Call (Push_Back x), Resume t1 Front (Some x)] ?m4"
    by (rule mon_runI[OF r3]) simp
  then show ?thesis using l ring.run_waiting[OF assms(1), of ?m4 _ _ "(t2, Front)"]
    by (intro exI[of _ ?m4]) auto
qed

lemma mon_lost_wakeup_witness:
  "\<exists>m. mon_run list_ring (mon_init (2, [])) demo_events m \<and>
     rb_list list_ring (mon_cb m) = [5] \<and> waiting m = {(2, Front)} \<and> woken m = {}"
  using mon_lost_wakeup[OF list_ring.ring_axioms, of "(2, [])" "1 :: nat" 2 "5 :: nat"]
  by (auto simp: demo_events_def list_ring_def)

subsection \<open>A buffer without capacity\<close>

context ring
begin

lemma apply_capacity_0:
  assumes "cb_apply R c b = Inr b'" "rb_capacity R b = 0" "\<And>n. c \<noteq> Set_Capacity n"
  shows "rb_capacity R b' = 0"
  using calls_capacity[OF assms(1,3)] assms(2) by simp

lemma step_capacity_0:
  assumes "mon_step R m e m'" "rb_capacity R (mon_cb m) = 0" "\<And>n. e \<noteq> Call (Set_Capacity n)"
  shows "rb_capacity R (mon_cb m') = 0 \<and> answer e = None"
proof -
  have l: "rb_list R (mon_cb m) = []" using bounded[of "mon_cb m"] assms(2) by simp
  from assms(1) show ?thesis
  proof (cases rule: mon_step.cases)
    case (call_quiet c b)
    then show ?thesis using apply_capacity_0[of c "mon_cb m" b] assms(2,3) by auto
  next
    case (call_notify c b r)
    then show ?thesis using apply_capacity_0[of c "mon_cb m" b] assms(2,3) by auto
  qed (use assms(2) l in auto)
qed

lemma run_capacity_0:
  "mon_run R m0 es m \<Longrightarrow> rb_capacity R (mon_cb m0) = 0 \<Longrightarrow> \<forall>n. Call (Set_Capacity n) \<notin> set es \<Longrightarrow>
     rb_capacity R (mon_cb m) = 0 \<and> (\<forall>e\<in>set es. answer e = None)"
proof (induction rule: run.induct)
  case (run_snoc es m1 e m2)
  then show ?case using step_capacity_0[OF run_snoc.hyps(2)] by auto
qed simp

end

text \<open>A default-constructed buffer has capacity 0: until set_capacity is called, front and back
  return to no reader, whatever is pushed.\<close>

theorem mon_default_blocks:
  assumes "ring R" "mon_run R (mon_init (rb_default R)) es m" "\<forall>n. Call (Set_Capacity n) \<notin> set es"
  shows "\<forall>e\<in>set es. answer e = None"
  using ring.run_capacity_0[OF assms(1,2) _ assms(3)] ring.default(2)[OF assms(1)]
  by (simp add: mon_init_def)

lemma mon_default_blocks_witness:
  "\<forall>e\<in>{Call (Push_Back (5 :: nat)), Ask (1 :: nat) Front None}. answer e = None"
proof -
  let ?m = "mon_init (0, []) :: (nat \<times> nat list, nat) monitor"
  have "mon_step list_ring ?m (Call (Push_Back 5)) (?m\<lparr>mon_cb := (0, [])\<rparr>)"
    by (rule call_quiet) (auto simp: mon_init_def list_ring_def last_n_def)
  then have "mon_step list_ring ?m (Call (Push_Back 5)) ?m" by (simp add: mon_init_def)
  then have "mon_run list_ring ?m [Call (Push_Back 5)] ?m" by (rule mon_runI[OF run_nil]) simp
  moreover have "mon_step list_ring ?m (Ask 1 Front None) (?m\<lparr>waiting := {(1, Front)}\<rparr>)"
    using ask_wait[of ?m 1 list_ring Front] by (simp add: idle_def mon_init_def list_ring_def)
  ultimately have "mon_run list_ring ?m [Call (Push_Back 5), Ask 1 Front None] (?m\<lparr>waiting := {(1, Front)}\<rparr>)"
    by (rule mon_runI) simp
  then have "mon_run list_ring (mon_init (rb_default list_ring)) [Call (Push_Back 5), Ask 1 Front None]
      (?m\<lparr>waiting := {(1, Front)}\<rparr>)" by (simp add: list_ring_def)
  from mon_default_blocks[OF list_ring.ring_axioms this] show ?thesis by simp
qed

end
