(* ===== verification/Stamped_Buffer.thy ===== *)
theory Stamped_Buffer
  imports Circular_Buffer
begin

text \<open>
  \<open>circ_buffer_stamped\<close> and \<open>circ_buffer_stamped_named\<close> of \<open>circular_buffer_stamped.h\<close>: a
  \<open>circ_buffer\<close> of triples of a text, a number and a value. The time (\<open>boost::posix_time\<close>) is
  not part of the repository: what the code reads of a \<open>ptime\<close> is a parameter, and the locale
  \<open>local_clock\<close> states the documented range of \<open>time_of_day().seconds()\<close>. Of
  \<open>circ_buffer_stamped_checked\<close> the constructor is modelled: its \<open>push_back\<close> calls a
  one-argument \<open>push_back\<close> that its own two-argument one hides, so it does not compile once it is
  used and has no behaviour.
\<close>

subsection \<open>The time\<close>

record 'p ptime_lib =
  pt_seconds :: "'p \<Rightarrow> int"
  pt_string :: "'p \<Rightarrow> string"

locale local_clock =
  fixes P :: "'p ptime_lib"
  assumes seconds_range: "0 \<le> pt_seconds P t" "pt_seconds P t < 60"
begin

lemma stamp_value: "fp_of (b64_of_int (pt_seconds P t)) = Fin (of_int (pt_seconds P t))"
  using seconds_range[of t] by (intro b64_of_int_val) simp

end

text \<open>A time as a number of seconds since midnight, shown with hours, minutes and seconds.\<close>

definition day_clock :: "nat ptime_lib" where
  "day_clock = \<lparr>pt_seconds = (\<lambda>t. int (t mod 60)),
     pt_string = (\<lambda>t. string_of_nat (t div 3600) @ '':'' @ string_of_nat (t div 60 mod 60) @ '':'' @
       string_of_nat (t mod 60))\<rparr>"

interpretation day_clock: local_clock day_clock
  by unfold_locales (simp_all add: day_clock_def)

subsection \<open>The stamped buffer\<close>

type_synonym 'a stamped = "string \<times> b64 \<times> 'a"

definition circ_buffer_stamped :: "('b, 'a stamped) ring_lib \<Rightarrow> int \<Rightarrow> 'b res" where
  "circ_buffer_stamped R n = circ_buffer R n"

definition stamped_push_tuple :: "('b, 'a stamped) ring_lib \<Rightarrow> 'a stamped \<Rightarrow> 'b \<Rightarrow> 'b res" where
  "stamped_push_tuple R x b = cb_apply R (Push_Back x) b"

definition stamp :: "'p ptime_lib \<Rightarrow> 'p \<Rightarrow> 'a \<Rightarrow> 'a stamped" where
  "stamp P now x = (pt_string P now, b64_of_int (pt_seconds P now), x)"

definition stamped_push :: "'p ptime_lib \<Rightarrow> ('b, 'a stamped) ring_lib \<Rightarrow> 'p \<Rightarrow> 'a \<Rightarrow> 'b \<Rightarrow> 'b res" where
  "stamped_push P R now error b = cb_apply R (Push_Back (stamp P now error)) b"

record 'b stamped_named =
  stamped_id :: string
  stamped_buffer :: 'b

definition circ_buffer_stamped_named ::
  "('b, 'a stamped) ring_lib \<Rightarrow> string \<Rightarrow> int \<Rightarrow> 'b stamped_named res" where
  "circ_buffer_stamped_named R i n =
     bind_res (circ_buffer_stamped R n) (\<lambda>b. Inr \<lparr>stamped_id = i, stamped_buffer = b\<rparr>)"

record ('b, 'c) stamped_checked = "'b stamped_named" +
  stamped_check :: 'c

definition circ_buffer_stamped_checked ::
  "('b, 'a stamped) ring_lib \<Rightarrow> string \<Rightarrow> 'c \<Rightarrow> int \<Rightarrow> ('b, 'c) stamped_checked res" where
  "circ_buffer_stamped_checked R i c n =
     bind_res (circ_buffer_stamped_named R i n) (\<lambda>nb. Inr (stamped_named.extend nb \<lparr>stamped_check = c\<rparr>))"

lemma checked_named:
  "circ_buffer_stamped_checked R i c n = Inr cb \<Longrightarrow>
     circ_buffer_stamped_named R i n = Inr (stamped_named.truncate cb) \<and> stamped_check cb = c"
  by (auto simp: circ_buffer_stamped_checked_def res_simps stamped_named.defs)

fun stamped_pushes ::
  "'p ptime_lib \<Rightarrow> ('b, 'a stamped) ring_lib \<Rightarrow> ('p \<times> 'a) list \<Rightarrow> 'b \<Rightarrow> 'b res" where
  "stamped_pushes P R [] b = Inr b"
| "stamped_pushes P R ((now, x) # xs) b = bind_res (stamped_push P R now x b) (stamped_pushes P R xs)"

lemma stamped_pushes_calls:
  "stamped_pushes P R xs b = cb_calls R (map Push_Back (map (\<lambda>(now, x). stamp P now x) xs)) b"
  by (induction P R xs b rule: stamped_pushes.induct) (simp_all add: stamped_push_def)

text \<open>C40: Pushing values into a stamped buffer of capacity n leaves the last n of them, each with
  the text of the time it was pushed and, as its number, the second of the minute, an
  integer from 0 to 59.\<close>

theorem stamped_window:
  assumes "ring R" "local_clock P" "circ_buffer_stamped_named R i n = Inr nb"
  shows "\<exists>b'. stamped_pushes P R xs (stamped_buffer nb) = Inr b' \<and> stamped_id nb = i \<and>
    rb_list R b' = last_n (nat (n mod 2 ^ 64)) (map (\<lambda>(now, x). stamp P now x) xs) \<and>
    (\<forall>(s, t, x)\<in>set (rb_list R b'). \<exists>k. fp_of t = Fin (of_int k) \<and> 0 \<le> k \<and> k < 60)"
proof -
  obtain b where b: "circ_buffer R n = Inr b" "nb = \<lparr>stamped_id = i, stamped_buffer = b\<rparr>"
    using assms(3) by (auto simp: circ_buffer_stamped_named_def circ_buffer_stamped_def res_simps)
  have e: "rb_list R b = []" "rb_capacity R b = nat (n mod 2 ^ 64)"
    using b(1) ring.set_capacity[OF assms(1)] ring.default[OF assms(1)]
    by (auto simp: circ_buffer_def split: option.splits)
  let ?ys = "map (\<lambda>(now, x). stamp P now x) xs"
  obtain b' where p: "cb_calls R (map Push_Back ?ys) b = Inr b'"
    "rb_list R b' = last_n (nat (n mod 2 ^ 64)) ?ys"
    using ring.pushes_back[OF assms(1), of ?ys b] e by auto
  have "\<exists>k. fp_of t = Fin (of_int k) \<and> 0 \<le> k \<and> k < 60" if "(s, t, x) \<in> set (rb_list R b')" for s t x
  proof -
    have "(s, t, x) \<in> set ?ys" using that p(2) last_n_set by fastforce
    then obtain now where "t = b64_of_int (pt_seconds P now)" by (auto simp: stamp_def)
    then show ?thesis
      using local_clock.stamp_value[OF assms(2), of now] local_clock.seconds_range[OF assms(2), of now] by blast
  qed
  then show ?thesis using p b(2) stamped_pushes_calls[of P R xs b] by auto
qed

lemma stamped_window_witness:
  "\<exists>b'. stamped_pushes day_clock list_ring [(59, ''a''), (60, ''b''), (119, ''c'')] (2, []) = Inr b' \<and>
     map (\<lambda>(s, t, x). x) (rb_list list_ring b') = [''b'', ''c'']"
proof -
  have "circ_buffer_stamped_named list_ring ''log'' 2 = Inr \<lparr>stamped_id = ''log'', stamped_buffer = (2, [])\<rparr>"
    by (simp add: circ_buffer_stamped_named_def circ_buffer_stamped_def circ_buffer_def list_ring_def)
  from stamped_window[OF list_ring.ring_axioms day_clock.local_clock_axioms this,
      of "[(59, ''a''), (60, ''b''), (119, ''c'')]"]
  show ?thesis by (auto simp: stamp_def last_n_def)
qed

text \<open>The number is the second of the minute: pushes one minute apart get the same one.\<close>

lemma stamps_repeat:
  "fst (snd (stamp day_clock t x)) = fst (snd (stamp day_clock (t + 60) y))"
  by (simp add: stamp_def day_clock_def)

end
