(* ===== verification/Statistics.thy ===== *)
theory Statistics
  imports Timer
begin

text \<open>
  The functions over a buffer in \<open>include/realtime_utilities/circular_buffer.h\<close>: \<open>mean\<close>,
  \<open>max\<close> and \<open>min\<close> for elements of type \<open>double\<close> (the only instance the repository uses),
  and \<open>combine\<close>.
\<close>

subsection \<open>The functions\<close>

definition cb_mean :: "b64 list \<Rightarrow> b64" where
  "cb_mean cb = (if length cb = 0 then b64_of_int 0
     else b64_div (foldl b64_add (b64_of_int 0) cb) (b64_of_int (int (length cb))))"

text \<open>\<open>std::max(a, b)\<close> is \<open>(a < b) ? b : a\<close> and \<open>std::min(a, b)\<close> is \<open>(b < a) ? b : a\<close>.\<close>

definition std_max :: "b64 \<Rightarrow> b64 \<Rightarrow> b64" where "std_max a b = (if b64_less a b then b else a)"
definition std_min :: "b64 \<Rightarrow> b64 \<Rightarrow> b64" where "std_min a b = (if b64_less b a then b else a)"

definition cb_max :: "b64 list \<Rightarrow> b64" where
  "cb_max cb = foldl (\<lambda>ret e. std_max e ret) (b64_of_int 0) cb"

definition cb_min :: "b64 list \<Rightarrow> b64" where
  "cb_min cb = foldl (\<lambda>ret e. std_min e ret) (b64_of_int 0) cb"

text \<open>\<open>combine\<close>: \<open>values[i]\<close> past the end is undefined when the assertion is compiled out.\<close>

fun combine_loop :: "'k list \<Rightarrow> 'v list \<Rightarrow> ('k \<rightharpoonup> 'v) \<Rightarrow> ('k \<rightharpoonup> 'v) res" where
  "combine_loop [] vs ret = Inr ret"
| "combine_loop (k # ks) [] ret = Inl Out_Of_Bounds"
| "combine_loop (k # ks) (v # vs) ret = combine_loop ks vs (ret(k \<mapsto> v))"

definition combine :: "bool \<Rightarrow> 'k list \<Rightarrow> 'v list \<Rightarrow> ('k \<rightharpoonup> 'v) res" where
  "combine nd keys values =
     bind_res (assert_res nd (length keys = length values)) (\<lambda>_. combine_loop keys values Map.empty)"

subsection \<open>combine\<close>

lemma combine_loop_result:
  "length ks \<le> length vs \<Longrightarrow> combine_loop ks vs m = Inr (m ++ map_of (rev (zip ks vs)))"
  by (induction ks vs m rule: combine_loop.induct) auto

lemma combine_loop_short: "length vs < length ks \<Longrightarrow> combine_loop ks vs m = Inl Out_Of_Bounds"
  by (induction ks vs m rule: combine_loop.induct) auto

text \<open>combine gives the map of the key and value pairs, the last value of a repeated key winning;
  lists of different lengths fail the assertion, and in a release build surplus values are
  ignored and missing ones are read out of bounds.\<close>

theorem combine_spec:
  "combine nd ks vs =
    (if length ks = length vs then Inr (map_of (rev (zip ks vs)))
     else if \<not> nd then Inl Assertion_Failed
     else if length ks < length vs then Inr (map_of (rev (zip ks vs)))
     else Inl Out_Of_Bounds)"
  by (auto simp: combine_def assert_res_def combine_loop_result combine_loop_short)

subsection \<open>Maximum and minimum\<close>

definition nan :: "b64 \<Rightarrow> bool" where "nan w \<longleftrightarrow> fp_of w = NaN"

lemma less_total: "\<not> nan a \<Longrightarrow> \<not> nan b \<Longrightarrow> \<not> b64_less a b \<Longrightarrow> \<not> b64_less b c \<Longrightarrow> \<not> b64_less a c"
  unfolding b64_less_def nan_def by (cases "fp_of a"; cases "fp_of b"; cases "fp_of c") auto

lemma fold_max:
  assumes "\<not> nan z" "\<forall>x\<in>set xs. \<not> nan x"
  shows "let m = foldl (\<lambda>ret e. std_max e ret) z xs in
    \<not> nan m \<and> m \<in> insert z (set xs) \<and> (\<forall>x\<in>insert z (set xs). \<not> b64_less m x)"
  using assms
proof (induction xs arbitrary: z)
  case (Cons x xs)
  have n: "\<not> nan (std_max x z)" using Cons.prems by (simp add: std_max_def)
  have b: "\<not> b64_less (std_max x z) z" "\<not> b64_less (std_max x z) x"
    using b64_less_trans[of x z x] by (auto simp: std_max_def)
  have nx: "\<not> nan x" "\<not> nan z" "\<forall>x\<in>set xs. \<not> nan x" using Cons.prems by auto
  define m where "m = foldl (\<lambda>ret e. std_max e ret) (std_max x z) xs"
  have m: "\<not> nan m" "m \<in> insert (std_max x z) (set xs)" "\<forall>y\<in>insert (std_max x z) (set xs). \<not> b64_less m y"
    using Cons.IH[OF n nx(3)] by (simp_all add: m_def Let_def)
  have "\<not> b64_less m z" "\<not> b64_less m x"
    using less_total[OF m(1) n _ b(1)] less_total[OF m(1) n _ b(2)] m(3) by simp_all
  moreover have "std_max x z \<in> {x, z}" by (simp add: std_max_def)
  ultimately have "\<not> nan m \<and> m \<in> insert z (set (x # xs)) \<and> (\<forall>y\<in>insert z (set (x # xs)). \<not> b64_less m y)"
    using m by auto
  then show ?case by (simp add: m_def Let_def)
qed simp

lemma fold_min:
  assumes "\<not> nan z" "\<forall>x\<in>set xs. \<not> nan x"
  shows "let m = foldl (\<lambda>ret e. std_min e ret) z xs in
    \<not> nan m \<and> m \<in> insert z (set xs) \<and> (\<forall>x\<in>insert z (set xs). \<not> b64_less x m)"
  using assms
proof (induction xs arbitrary: z)
  case (Cons x xs)
  have n: "\<not> nan (std_min x z)" using Cons.prems by (simp add: std_min_def)
  have b: "\<not> b64_less z (std_min x z)" "\<not> b64_less x (std_min x z)"
    using b64_less_trans[of x z x] by (auto simp: std_min_def)
  have nx: "\<not> nan x" "\<not> nan z" "\<forall>x\<in>set xs. \<not> nan x" using Cons.prems by auto
  define m where "m = foldl (\<lambda>ret e. std_min e ret) (std_min x z) xs"
  have m: "\<not> nan m" "m \<in> insert (std_min x z) (set xs)" "\<forall>y\<in>insert (std_min x z) (set xs). \<not> b64_less y m"
    using Cons.IH[OF n nx(3)] by (simp_all add: m_def Let_def)
  have "\<not> b64_less z m" "\<not> b64_less x m"
    using less_total[OF nx(2) n b(1)] less_total[OF nx(1) n b(2)] m(3) by simp_all
  moreover have "std_min x z \<in> {x, z}" by (simp add: std_min_def)
  ultimately have "\<not> nan m \<and> m \<in> insert z (set (x # xs)) \<and> (\<forall>y\<in>insert z (set (x # xs)). \<not> b64_less y m)"
    using m by auto
  then show ?case by (simp add: m_def Let_def)
qed simp

lemma not_nan_zero [simp]: "\<not> nan (b64_of_int 0)"
  using b64_of_int_val[of 0] by (simp add: nan_def)

text \<open>Over a buffer without NaN, max and min return an element or 0, and no element lies above max
  or below min; 0 always counts, so the maximum of negative and the minimum of positive
  elements is 0.\<close>

theorem cb_extremes:
  assumes "\<forall>x\<in>set cb. \<not> nan x"
  shows "cb_max cb \<in> insert (b64_of_int 0) (set cb) \<and>
    (\<forall>x\<in>insert (b64_of_int 0) (set cb). \<not> b64_less (cb_max cb) x) \<and>
    cb_min cb \<in> insert (b64_of_int 0) (set cb) \<and>
    (\<forall>x\<in>insert (b64_of_int 0) (set cb). \<not> b64_less x (cb_min cb))"
  using fold_max[OF not_nan_zero assms] fold_min[OF not_nan_zero assms]
  by (simp add: cb_max_def cb_min_def Let_def)

lemma cb_extremes_witness:
  "\<not> b64_less (cb_max [b64_of_int 3, b64_of_int 5]) (b64_of_int 5) \<and>
   \<not> b64_less (b64_of_int 3) (cb_min [b64_of_int 3, b64_of_int 5])"
  using cb_extremes[of "[b64_of_int 3, b64_of_int 5]"] b64_of_int_val[of 3] b64_of_int_val[of 5]
  by (simp add: nan_def)

text \<open>The minimum starts from 0, so positive elements never show.\<close>

lemma cb_min_pos: "\<forall>x\<in>set cb. b64_less (b64_of_int 0) x \<Longrightarrow> cb_min cb = b64_of_int 0"
  unfolding cb_min_def by (induction cb) (simp_all add: std_min_def)

subsection \<open>The mean\<close>

lemma scaled_fits:
  assumes "\<bar>a\<bar> \<le> 2 ^ 53" "j \<le> 900"
  shows "\<bar>of_int a * 2 powi j\<bar> \<le> (2 powi 1023 :: rat)"
proof -
  have "\<bar>of_int a :: rat\<bar> \<le> of_int (2 ^ 53)" using assms(1) by (rule of_int_abs_le)
  moreover have "(2 powi j :: rat) \<le> 2 powi 900" using assms(2) by (rule two_powi_le)
  ultimately have "\<bar>of_int a * 2 powi j\<bar> \<le> (2 powi 53 * 2 powi 900 :: rat)"
    unfolding abs_mult by (intro mult_mono) simp_all
  also have "\<dots> \<le> 2 powi 1023" using two_powi_le[of 953 1023] two_powi_add[of 53 900] by simp
  finally show ?thesis .
qed

text \<open>While the sum of multiples of one power of two fits 53 bits, no addition rounds.\<close>

lemma fold_add_exact:
  assumes "\<forall>x\<in>set xs. fp_of x = Fin (of_int (k x) * 2 powi j)" "fp_of z = Fin (of_int a * 2 powi j)"
    and "\<bar>a\<bar> + (\<Sum>x\<leftarrow>xs. \<bar>k x\<bar>) \<le> 2 ^ 53" "-1074 \<le> j" "j \<le> 900"
  shows "fp_of (foldl b64_add z xs) = Fin (of_int (a + (\<Sum>x\<leftarrow>xs. k x)) * 2 powi j)"
  using assms
proof (induction xs arbitrary: z a)
  case (Cons x xs)
  have nn: "0 \<le> (\<Sum>x\<leftarrow>xs. \<bar>k x\<bar>)" by (rule sum_list_nonneg) auto
  have b: "\<bar>a + k x\<bar> \<le> 2 ^ 53" using Cons.prems(3) nn by simp
  have s: "of_int a * 2 powi j + of_int (k x) * 2 powi j = (of_int (a + k x) * 2 powi j :: rat)"
    by (simp add: distrib_right)
  have "fp_of (b64_add z x) = Fin (rnd (of_int (a + k x) * 2 powi j))"
    unfolding s[symmetric] using Cons.prems(1,2) scaled_fits[OF b Cons.prems(5)] s
    by (intro b64_add_val fits64_bound) simp_all
  also have "rnd (of_int (a + k x) * 2 powi j) = of_int (a + k x) * 2 powi j"
    by (rule rnd_exact, rule representable_scaled[OF b Cons.prems(4)])
  finally have v: "fp_of (b64_add z x) = Fin (of_int (a + k x) * 2 powi j)" .
  have "\<bar>a + k x\<bar> + (\<Sum>x\<leftarrow>xs. \<bar>k x\<bar>) \<le> 2 ^ 53" using Cons.prems(3) by simp
  from Cons.IH[OF _ v this Cons.prems(4,5)] Cons.prems(1) show ?case by (simp add: add.assoc)
qed simp

text \<open>C34: When the elements are integer multiples of one power of two and the sum of their sizes
  stays within 53 bits, mean is the exact mean rounded once.\<close>

theorem cb_mean_rounded:
  assumes "\<forall>x\<in>set cb. fp_of x = Fin (of_int (k x) * 2 powi j)" "cb \<noteq> []"
    and "(\<Sum>x\<leftarrow>cb. \<bar>k x\<bar>) \<le> 2 ^ 53" "-1074 \<le> j" "j \<le> 900" "length cb \<le> 2 ^ 53"
  shows "fp_of (cb_mean cb) = Fin (rnd (of_int (\<Sum>x\<leftarrow>cb. k x) * 2 powi j / of_nat (length cb)))"
proof -
  let ?s = "of_int (\<Sum>x\<leftarrow>cb. k x) * 2 powi j :: rat"
  have z: "fp_of (b64_of_int 0) = Fin (of_int 0 * 2 powi j)" using b64_of_int_val[of 0] by simp
  have f: "fp_of (foldl b64_add (b64_of_int 0) cb) = Fin ?s"
    using fold_add_exact[OF assms(1) z _ assms(4,5)] assms(3) by simp
  have n: "fp_of (b64_of_int (int (length cb))) = Fin (of_int (int (length cb)))"
    using assms(6) by (intro b64_of_int_val) simp
  have "\<bar>(\<Sum>x\<leftarrow>cb. k x)\<bar> \<le> (\<Sum>x\<leftarrow>cb. \<bar>k x\<bar>)" using sum_list_abs[of "map k cb"] by (simp add: comp_def)
  then have "\<bar>?s\<bar> \<le> 2 powi 1023" using scaled_fits[OF _ assms(5)] assms(3) by simp
  moreover have "\<bar>?s / of_int (int (length cb))\<bar> \<le> \<bar>?s\<bar>"
    using assms(2) by (cases cb) (auto simp: abs_divide field_simps mult_le_cancel_left1)
  ultimately have "fits64 (?s / of_int (int (length cb)))" by (intro fits64_bound) linarith
  from b64_div_val[OF f n _ this] assms(2) show ?thesis by (simp add: cb_mean_def)
qed

lemma cb_mean_rounded_witness:
  "fp_of (cb_mean [b64_of_int 3, b64_of_int 4]) = Fin (rnd (7 / 2))"
proof -
  let ?k = "\<lambda>x. if fp_of x = Fin 3 then 3 else 4 :: int"
  have v: "fp_of (b64_of_int 3) = Fin 3" "fp_of (b64_of_int 4) = Fin 4"
    using b64_of_int_val[of 3] b64_of_int_val[of 4] by simp_all
  show ?thesis using cb_mean_rounded[of "[b64_of_int 3, b64_of_int 4]" ?k 0] v by simp
qed

end
