(* ===== verification/Time_Span_Tracker.thy ===== *)
theory Time_Span_Tracker
  imports Circular_Buffer Statistics
begin

text \<open>
  \<open>TimeSpanTracker\<close> of \<open>include/realtime_utilities/time_span_tracker.h\<close>: a window of the
  last time spans, counters of the cycles and of the late ones, and a mode that the first
  call fixes. A reading of \<open>high_resolution_clock\<close> is an argument, in nanoseconds since its
  epoch; every method holds the object's mutex from start to end, so calls are atomic.
\<close>

subsection \<open>State and methods\<close>

datatype tracker_mode = NONE | TIME_SPAN | TICK_TOCK

record 'b tracker =
  nominal_time_span :: b64
  cycles :: "64 word"
  missed_cycles :: "64 word"
  mode :: tracker_mode
  buffer :: 'b
  last_tick :: int

text \<open>\<open>last_tick_\<close> has no initialiser: a default \<open>time_point\<close> is the epoch.\<close>

definition TimeSpanTracker :: "('b, b64) ring_lib \<Rightarrow> int \<Rightarrow> b64 \<Rightarrow> 'b tracker res" where
  "TimeSpanTracker R windows_dim nominal =
     bind_res (circ_buffer R windows_dim) (\<lambda>b. Inr
       \<lparr>nominal_time_span = nominal, cycles = 0, missed_cycles = 0, mode = NONE, buffer = b,
        last_tick = 0\<rparr>)"

text \<open>\<open>duration_cast<duration<double>>\<close> of a number of nanoseconds.\<close>

definition seconds :: "int \<Rightarrow> b64" where
  "seconds d = b64_div (b64_of_int d) (b64_lit (10 ^ 9))"

definition late_span :: "b64 \<Rightarrow> b64 \<Rightarrow> bool" where
  "late_span nominal ts \<longleftrightarrow> b64_less (b64_mul (b64_lit (12 / 10)) nominal) ts"

definition time_span :: "('b, b64) ring_lib \<Rightarrow> int \<Rightarrow> 'b tracker \<Rightarrow> (bool \<times> 'b tracker) res" where
  "time_span R now tr =
     (if mode tr = TICK_TOCK then Inr (False, tr)
      else bind_res (sub64 now (last_tick tr)) (\<lambda>d.
        let ts = seconds d in
        Inr (True, tr\<lparr>mode := TIME_SPAN, buffer := rb_push_back R ts (buffer tr),
          missed_cycles := (if late_span (nominal_time_span tr) ts then missed_cycles tr + 1
                            else missed_cycles tr),
          cycles := cycles tr + 1, last_tick := now\<rparr>)))"

definition tick :: "int \<Rightarrow> 'b tracker \<Rightarrow> (bool \<times> 'b tracker) res" where
  "tick now tr =
     (if mode tr = TIME_SPAN then Inr (False, tr)
      else Inr (True, tr\<lparr>mode := TICK_TOCK, last_tick := now\<rparr>))"

definition tock :: "('b, b64) ring_lib \<Rightarrow> int \<Rightarrow> 'b tracker \<Rightarrow> (bool \<times> 'b tracker) res" where
  "tock R now tr =
     (if mode tr = TIME_SPAN then Inr (False, tr)
      else bind_res (sub64 now (last_tick tr)) (\<lambda>d.
        let ts = seconds d in
        Inr (True, tr\<lparr>mode := TICK_TOCK, buffer := rb_push_back R ts (buffer tr),
          missed_cycles := (if late_span (nominal_time_span tr) ts then missed_cycles tr + 1
                            else missed_cycles tr),
          cycles := cycles tr + 1, last_tick := now\<rparr>)))"

definition getMean :: "('b, b64) ring_lib \<Rightarrow> 'b tracker \<Rightarrow> b64" where
  "getMean R tr = cb_mean (cb_get R (buffer tr))"

definition getMax :: "('b, b64) ring_lib \<Rightarrow> 'b tracker \<Rightarrow> b64" where
  "getMax R tr = cb_max (cb_get R (buffer tr))"

definition getMin :: "('b, b64) ring_lib \<Rightarrow> 'b tracker \<Rightarrow> b64" where
  "getMin R tr = cb_min (cb_get R (buffer tr))"

definition getMissedCycles :: "'b tracker \<Rightarrow> 64 word" where "getMissedCycles tr = missed_cycles tr"
definition getTotalCycles :: "'b tracker \<Rightarrow> 64 word" where "getTotalCycles tr = cycles tr"

subsection \<open>Sequences of calls\<close>

datatype track_op = Span | Tick | Tock

definition tracker_op ::
  "('b, b64) ring_lib \<Rightarrow> track_op \<Rightarrow> int \<Rightarrow> 'b tracker \<Rightarrow> (bool \<times> 'b tracker) res" where
  "tracker_op R op now tr =
     (case op of Span \<Rightarrow> time_span R now tr | Tick \<Rightarrow> tick now tr | Tock \<Rightarrow> tock R now tr)"

fun tracker_run ::
  "('b, b64) ring_lib \<Rightarrow> (track_op \<times> int) list \<Rightarrow> 'b tracker \<Rightarrow> (bool list \<times> 'b tracker) res" where
  "tracker_run R [] tr = Inr ([], tr)"
| "tracker_run R ((op, now) # ops) tr =
     bind_res (tracker_op R op now tr) (\<lambda>(b, tr1).
     bind_res (tracker_run R ops tr1) (\<lambda>(bs, tr2). Inr (b # bs, tr2)))"

text \<open>The calls a mode accepts, and the mode a call sets.\<close>

definition accepts :: "tracker_mode \<Rightarrow> track_op \<Rightarrow> bool" where
  "accepts m op \<longleftrightarrow> (case m of NONE \<Rightarrow> True | TIME_SPAN \<Rightarrow> op = Span | TICK_TOCK \<Rightarrow> op \<noteq> Span)"

definition sets_mode :: "track_op \<Rightarrow> tracker_mode" where
  "sets_mode op = (if op = Span then TIME_SPAN else TICK_TOCK)"

text \<open>The time spans a sequence of accepted calls measures, from the last tick on.\<close>

fun spans_of :: "int \<Rightarrow> (track_op \<times> int) list \<Rightarrow> int list" where
  "spans_of l [] = []"
| "spans_of l ((op, now) # ops) = (if op = Tick then spans_of now ops else (now - l) # spans_of now ops)"

lemma tracker_refused: "\<not> accepts (mode tr) op \<Longrightarrow> tracker_op R op now tr = Inr (False, tr)"
  by (cases op; cases "mode tr") (auto simp: accepts_def tracker_op_def time_span_def tick_def tock_def)

lemma tracker_accepted:
  assumes "accepts (mode tr) op" "op = Tick \<or> in_s64 (now - last_tick tr)"
  shows "tracker_op R op now tr = Inr (True, tr\<lparr>mode := sets_mode op, last_tick := now,
      buffer := (if op = Tick then buffer tr else rb_push_back R (seconds (now - last_tick tr)) (buffer tr)),
      cycles := (if op = Tick then cycles tr else cycles tr + 1),
      missed_cycles := (if op \<noteq> Tick \<and> late_span (nominal_time_span tr) (seconds (now - last_tick tr))
        then missed_cycles tr + 1 else missed_cycles tr)\<rparr>)"
  using assms
  by (cases op; cases "mode tr")
    (auto simp: accepts_def tracker_op_def time_span_def tick_def tock_def sets_mode_def Let_def)

subsection \<open>The mode\<close>

lemma tracker_op_mode:
  assumes "tracker_op R op now tr = Inr (b, tr1)" "mode tr \<noteq> NONE"
  shows "mode tr1 = mode tr \<and> b = accepts (mode tr) op"
  using assms
  by (cases op; cases "mode tr")
    (auto simp: accepts_def tracker_op_def time_span_def tick_def tock_def Let_def res_simps split: if_splits)

lemma tracker_op_sets:
  assumes "tracker_op R op now tr = Inr (b, tr1)" "mode tr = NONE"
  shows "mode tr1 = sets_mode op \<and> b"
  using assms
  by (cases op) (auto simp: tracker_op_def time_span_def tick_def tock_def sets_mode_def Let_def res_simps)

lemma sets_mode_accepts: "accepts (sets_mode op) op" "sets_mode op \<noteq> NONE"
  by (auto simp: accepts_def sets_mode_def)

lemma run_mode_fixed:
  assumes "mode tr \<noteq> NONE" "tracker_run R ops tr = Inr (bs, tr')"
  shows "mode tr' = mode tr \<and> bs = map (\<lambda>x. accepts (mode tr) (fst x)) ops \<and>
    tracker_run R (filter (\<lambda>x. accepts (mode tr) (fst x)) ops) tr
      = Inr (replicate (length (filter (\<lambda>x. accepts (mode tr) (fst x)) ops)) True, tr')"
  using assms
proof (induction ops arbitrary: tr bs)
  case (Cons x ops)
  obtain op now where x: "x = (op, now)" by force
  obtain b tr1 bs1 where r: "tracker_op R op now tr = Inr (b, tr1)" "tracker_run R ops tr1 = Inr (bs1, tr')"
    "bs = b # bs1"
    using Cons.prems(2) x by (auto simp: res_simps)
  have m: "mode tr1 = mode tr" "b = accepts (mode tr) op"
    using tracker_op_mode[OF r(1) Cons.prems(1)] by simp_all
  have "tr1 = tr" if "\<not> accepts (mode tr) op"
    using tracker_refused[OF that, of R now] r(1) by simp
  then show ?case using Cons.IH[of tr1 bs1] Cons.prems(1) r m x by auto
qed simp

text \<open>Clock readings are nanoseconds since the epoch in an \<open>int64_t\<close>; with them no call faults.\<close>

definition clock_ok :: "int \<Rightarrow> bool" where "clock_ok now \<longleftrightarrow> 0 \<le> now \<and> now < 2 ^ 63"

lemma clock_diff: "clock_ok a \<Longrightarrow> clock_ok b \<Longrightarrow> in_s64 (a - b)"
  by (simp add: clock_ok_def in_s64_def)

lemma tracker_run_returns:
  assumes "clock_ok (last_tick tr)" "\<forall>x\<in>set ops. clock_ok (snd x)"
  shows "\<exists>bs tr'. tracker_run R ops tr = Inr (bs, tr')"
  using assms
proof (induction ops arbitrary: tr)
  case (Cons x ops)
  obtain op now where x: "x = (op, now)" by force
  have "\<exists>b tr1. tracker_op R op now tr = Inr (b, tr1) \<and> clock_ok (last_tick tr1)"
  proof (cases "accepts (mode tr) op")
    case True
    then show ?thesis
      using tracker_accepted[of tr op now R] clock_diff[of now "last_tick tr"] Cons.prems x by auto
  next
    case False
    then show ?thesis using tracker_refused[OF False, of R now] Cons.prems(1) by auto
  qed
  then obtain b tr1 where t: "tracker_op R op now tr = Inr (b, tr1)" "clock_ok (last_tick tr1)" by blast
  obtain bs tr' where "tracker_run R ops tr1 = Inr (bs, tr')"
    using Cons.IH[OF t(2)] Cons.prems(2) by auto
  then show ?case using t(1) x by simp
qed simp

text \<open>The mode after a sequence of calls: that of the tracker, or what the first call sets.\<close>

fun mode_after :: "tracker_mode \<Rightarrow> (track_op \<times> int) list \<Rightarrow> tracker_mode" where
  "mode_after NONE ((op, now) # ops) = sets_mode op"
| "mode_after m ops = m"

text \<open>C38: The first call sets the mode of a tracker for good. For any tracker and any sequence of
  calls of time_span, tick and tock, with clock readings of 0 to 2^63 - 1 ns, let m be the
  mode the tracker has or, when that is NONE, the one of the first call (TIME_SPAN for
  time_span, TICK_TOCK for tick and tock). The run returns without a fault and leaves mode
  m; a call returns true exactly when it is of the kind of m, every other one returns false
  and changes nothing, so that the run of the accepted calls alone ends in the same
  tracker.\<close>

theorem tracker_mode_fixed:
  assumes "clock_ok (last_tick tr)" "\<forall>x\<in>set ops. clock_ok (snd x)"
  shows "\<exists>tr'. let m = mode_after (mode tr) ops; ok = (\<lambda>x. accepts m (fst x)) in
    tracker_run R ops tr = Inr (map ok ops, tr') \<and> mode tr' = m \<and>
    tracker_run R (filter ok ops) tr = Inr (replicate (length (filter ok ops)) True, tr')"
proof -
  obtain bs tr' where run: "tracker_run R ops tr = Inr (bs, tr')"
    using tracker_run_returns[OF assms] by blast
  show ?thesis
  proof (cases "mode tr = NONE \<and> ops \<noteq> []")
    case False
    then have "mode_after (mode tr) ops = mode tr" by (cases "mode tr"; cases ops) auto
    then show ?thesis using run False run_mode_fixed[OF _ run] by (cases "mode tr = NONE") auto
  next
    case True
    then obtain op now ops1 where ops: "ops = (op, now) # ops1" by (cases ops) auto
    obtain b tr1 bs1 where r: "tracker_op R op now tr = Inr (b, tr1)" "tracker_run R ops1 tr1 = Inr (bs1, tr')"
      "bs = b # bs1"
      using run ops by (auto simp: res_simps)
    have "mode tr1 = sets_mode op" "b" using tracker_op_sets[OF r(1)] True by simp_all
    then show ?thesis
      using run_mode_fixed[OF _ r(2)] r sets_mode_accepts[of op] True ops
      by (intro exI[of _ tr']) (auto simp: Let_def)
  qed
qed

lemma tracker_mode_fixed_witness:
  "\<exists>tr'. tracker_run list_ring [(Tick, 7), (Span, 8), (Tick, 9)]
      \<lparr>nominal_time_span = b64_of_int 1, cycles = 0, missed_cycles = 0, mode = NONE,
       buffer = (2 :: nat, [] :: b64 list), last_tick = 0\<rparr> = Inr ([True, False, True], tr') \<and>
    mode tr' = TICK_TOCK"
proof -
  let ?t = "\<lparr>nominal_time_span = b64_of_int 1, cycles = 0, missed_cycles = 0, mode = NONE,
     buffer = (2 :: nat, [] :: b64 list), last_tick = 0\<rparr>"
  have "clock_ok (last_tick ?t)" "\<forall>x\<in>set [(Tick, 7), (Span, 8), (Tick, 9)]. clock_ok (snd x)"
    by (simp_all add: clock_ok_def)
  from tracker_mode_fixed[OF this, of list_ring] show ?thesis
    by (auto simp: Let_def accepts_def sets_mode_def simp del: tracker_run.simps)
qed

subsection \<open>Counters and window\<close>

lemma mode_accepts:
  "(\<forall>x\<in>set ops. fst x = Span) \<or> (\<forall>x\<in>set ops. fst x \<noteq> Span) \<Longrightarrow> x \<in> set ops \<Longrightarrow> y \<in> set ops \<Longrightarrow>
     accepts (sets_mode (fst x)) (fst y)"
  by (auto simp: accepts_def sets_mode_def)

lemma runs_accepted:
  assumes "ring R" "\<forall>x\<in>set ops. clock_ok (snd x)" "clock_ok (last_tick tr)"
    and "\<forall>x\<in>set ops. accepts (mode tr) (fst x)" "\<forall>x\<in>set ops. \<forall>y\<in>set ops. accepts (sets_mode (fst x)) (fst y)"
  shows "\<exists>tr'. tracker_run R ops tr = Inr (replicate (length ops) True, tr') \<and>
    nominal_time_span tr' = nominal_time_span tr \<and>
    cycles tr' = cycles tr + of_nat (length (spans_of (last_tick tr) ops)) \<and>
    missed_cycles tr' = missed_cycles tr +
      of_nat (length (filter (\<lambda>d. late_span (nominal_time_span tr) (seconds d)) (spans_of (last_tick tr) ops))) \<and>
    rb_list R (buffer tr') = last_n (rb_capacity R (buffer tr))
      (rb_list R (buffer tr) @ map seconds (spans_of (last_tick tr) ops))"
  using assms(2-)
proof (induction ops arbitrary: tr)
  case Nil
  then show ?case using ring.bounded[OF assms(1), of "buffer tr"] by (simp add: last_n_all)
next
  case (Cons x ops)
  obtain op now where x: "x = (op, now)" by force
  define tr1 where "tr1 = tr\<lparr>mode := sets_mode op, last_tick := now,
      buffer := (if op = Tick then buffer tr else rb_push_back R (seconds (now - last_tick tr)) (buffer tr)),
      cycles := (if op = Tick then cycles tr else cycles tr + 1),
      missed_cycles := (if op \<noteq> Tick \<and> late_span (nominal_time_span tr) (seconds (now - last_tick tr))
        then missed_cycles tr + 1 else missed_cycles tr)\<rparr>"
  have step: "tracker_op R op now tr = Inr (True, tr1)"
    unfolding tr1_def using tracker_accepted[of tr op now R] Cons.prems(1-3) clock_diff[of now "last_tick tr"] x
    by auto
  have "\<forall>x\<in>set ops. accepts (mode tr1) (fst x)" "clock_ok (last_tick tr1)"
    using Cons.prems(1,4) x by (auto simp: tr1_def)
  then obtain tr' where tr': "tracker_run R ops tr1 = Inr (replicate (length ops) True, tr')"
    "nominal_time_span tr' = nominal_time_span tr1"
    "cycles tr' = cycles tr1 + of_nat (length (spans_of (last_tick tr1) ops))"
    "missed_cycles tr' = missed_cycles tr1 +
      of_nat (length (filter (\<lambda>d. late_span (nominal_time_span tr1) (seconds d)) (spans_of (last_tick tr1) ops)))"
    "rb_list R (buffer tr') = last_n (rb_capacity R (buffer tr1))
      (rb_list R (buffer tr1) @ map seconds (spans_of (last_tick tr1) ops))"
    using Cons.IH[of tr1] Cons.prems(1,4) by auto
  have "rb_capacity R (buffer tr1) = rb_capacity R (buffer tr)"
    using ring.push_back(2)[OF assms(1)] by (simp add: tr1_def)
  moreover have "rb_list R (buffer tr1) = last_n (rb_capacity R (buffer tr))
      (rb_list R (buffer tr) @ (if op = Tick then [] else [seconds (now - last_tick tr)]))"
    using ring.push_back(1)[OF assms(1)] ring.bounded[OF assms(1), of "buffer tr"]
    by (simp add: tr1_def last_n_all)
  ultimately show ?case
    using step tr' x by (auto simp: tr1_def last_n_last_n)
qed

lemma new_tracker:
  assumes "ring R" "TimeSpanTracker R w nominal = Inr tr"
  shows "nominal_time_span tr = nominal" "cycles tr = 0" "missed_cycles tr = 0" "mode tr = NONE"
    "last_tick tr = 0" "rb_list R (buffer tr) = []" "rb_capacity R (buffer tr) = nat (w mod 2 ^ 64)"
  using assms(2) ring.set_capacity[OF assms(1)] ring.default[OF assms(1)]
  by (auto simp: TimeSpanTracker_def circ_buffer_def res_simps split: option.splits)

lemma new_tracker_run:
  assumes "ring R" "TimeSpanTracker R w nominal = Inr tr" "\<forall>x\<in>set ops. clock_ok (snd x)"
    and "(\<forall>x\<in>set ops. fst x = Span) \<or> (\<forall>x\<in>set ops. fst x \<noteq> Span)"
  shows "\<exists>tr'. tracker_run R ops tr = Inr (replicate (length ops) True, tr') \<and>
    cycles tr' = of_nat (length (spans_of 0 ops)) \<and>
    missed_cycles tr' = of_nat (length (filter (\<lambda>d. late_span nominal (seconds d)) (spans_of 0 ops))) \<and>
    rb_list R (buffer tr') = last_n (nat (w mod 2 ^ 64)) (map seconds (spans_of 0 ops))"
proof -
  note n = new_tracker[OF assms(1,2)]
  have "\<forall>x\<in>set ops. accepts (mode tr) (fst x)" by (simp add: n accepts_def)
  from runs_accepted[OF assms(1,3) _ this] mode_accepts[OF assms(4)] show ?thesis
    by (auto simp: n clock_ok_def)
qed

text \<open>C10: A new tracker used in one mode accepts every call, counts the time spans, counts as
  missed those above 1.2 times the nominal one, and keeps the last ones its window holds; a
  span runs from the previous call, the first from the epoch of the clock.\<close>

theorem tracker_counts:
  assumes "ring R" "TimeSpanTracker R w nominal = Inr tr" "\<forall>x\<in>set ops. clock_ok (snd x)"
    and "(\<forall>x\<in>set ops. fst x = Span) \<or> (\<forall>x\<in>set ops. fst x \<noteq> Span)"
  shows "\<exists>tr'. tracker_run R ops tr = Inr (replicate (length ops) True, tr') \<and>
    getTotalCycles tr' = of_nat (length (spans_of 0 ops)) \<and>
    getMissedCycles tr' = of_nat (length (filter (\<lambda>d. late_span nominal (seconds d)) (spans_of 0 ops))) \<and>
    cb_get R (buffer tr') = last_n (nat (w mod 2 ^ 64)) (map seconds (spans_of 0 ops))"
  using new_tracker_run[OF assms] by (simp add: getTotalCycles_def getMissedCycles_def cb_get_def)

definition demo_tracker :: "(nat \<times> b64 list) tracker" where
  "demo_tracker = \<lparr>nominal_time_span = b64_of_int 1, cycles = 0, missed_cycles = 0, mode = NONE,
     buffer = (2, []), last_tick = 0\<rparr>"

lemma demo_tracker: "TimeSpanTracker list_ring 2 (b64_of_int 1) = Inr demo_tracker"
  by (simp add: TimeSpanTracker_def circ_buffer_def list_ring_def demo_tracker_def)

lemma tracker_counts_witness:
  "\<exists>tr'. tracker_run list_ring [(Tick, 10), (Tock, 30), (Tock, 70), (Tick, 80), (Tock, 85)] demo_tracker
      = Inr ([True, True, True, True, True], tr') \<and> getTotalCycles tr' = 3 \<and>
     cb_get list_ring (buffer tr') = [seconds 40, seconds 5]"
proof -
  let ?ops = "[(Tick, 10), (Tock, 30), (Tock, 70), (Tick, 80), (Tock, 85 :: int)]"
  have five: "5 = Suc (Suc (Suc (Suc (Suc 0))))" by simp
  have sp: "spans_of 0 ?ops = [20, 40, 5]" by simp
  from tracker_counts[OF list_ring.ring_axioms demo_tracker, of ?ops]
  show ?thesis by (auto simp: sp clock_ok_def five last_n_def)
qed

subsection \<open>The first span\<close>

lemma fp_of_big_int: "\<bar>k\<bar> < 2 ^ 63 \<Longrightarrow> fp_of (b64_of_int k) = Fin (rnd (of_int k))"
  unfolding b64_of_int_def using of_int_abs_le[of k "2 ^ 63"]
  by (intro fp_of_round fits64_small) simp

lemma seconds_val:
  assumes "0 \<le> d" "d < 2 ^ 63"
  shows "fp_of (seconds d) = Fin (rnd (rnd (of_int d) / 10 ^ 9))" "0 \<le> rnd (of_int d)"
proof -
  have r: "0 \<le> rnd (of_int d)" "rnd (of_int d) \<le> 2 powi 63"
  proof -
    show "0 \<le> rnd (of_int d)" using assms(1) by (intro rnd_nonneg) simp
    have "(of_int d :: rat) \<le> of_int (2 ^ 63)" using assms(2) by (simp only: of_int_le_iff)
    then have "rnd (of_int d) \<le> rnd (2 powi 63)" by (intro rnd_mono) simp
    then show "rnd (of_int d) \<le> 2 powi 63" using rnd_exact[OF representable_scaled[of 1 63]] by simp
  qed
  then show "0 \<le> rnd (of_int d)" by simp
  have "fp_of (b64_of_int d) = Fin (rnd (of_int d))" using assms by (intro fp_of_big_int) simp
  then show "fp_of (seconds d) = Fin (rnd (rnd (of_int d) / 10 ^ 9))"
    unfolding seconds_def using r by (intro b64_div_val) (auto intro!: fits64_small)
qed

lemma seconds_at_least:
  assumes "k * 10 ^ 9 \<le> d" "0 \<le> k" "k * 10 ^ 9 \<le> 2 ^ 53" "d < 2 ^ 63"
  obtains x where "fp_of (seconds d) = Fin x" "of_int k \<le> x"
proof -
  have d0: "0 \<le> d" using assms(1,2) by (meson mult_nonneg_nonneg order_trans zero_le_numeral zero_le_power)
  have k: "k \<le> 2 ^ 53" using assms(2,3) by simp
  have "(of_int (k * 10 ^ 9) :: rat) \<le> of_int d" using assms(1) by (simp only: of_int_le_iff)
  then have "rnd (of_int (k * 10 ^ 9)) \<le> rnd (of_int d)" by (rule rnd_mono)
  then have "of_int (k * 10 ^ 9) \<le> rnd (of_int d)" using rnd_of_int[of "k * 10 ^ 9"] assms(2,3) by simp
  then have "of_int k \<le> rnd (of_int d) / 10 ^ 9" by (simp add: field_simps)
  then have "rnd (of_int k) \<le> rnd (rnd (of_int d) / 10 ^ 9)" by (rule rnd_mono)
  then have "of_int k \<le> rnd (rnd (of_int d) / 10 ^ 9)" using rnd_of_int[of k] assms(2) k by simp
  then show ?thesis using seconds_val(1)[OF d0 assms(4)] by (rule that[rotated])
qed

lemma late_limit:
  assumes "fp_of nominal = Fin n" "0 \<le> n" "n \<le> of_int k" "\<bar>2 * k\<bar> \<le> 2 ^ 53"
  obtains x where "fp_of (b64_mul (b64_lit (12 / 10)) nominal) = Fin x" "x \<le> of_int (2 * k)"
proof -
  have l: "fp_of (b64_lit (12 / 10)) = Fin (rnd (12 / 10))"
    unfolding b64_lit_def by (rule fp_of_round, rule fits64_small) simp
  have r: "0 \<le> rnd (12 / 10)" "rnd (12 / 10) \<le> 2"
    using rnd_mono[of "12 / 10" "of_int 2"] rnd_of_int[of 2] by (auto intro: rnd_nonneg)
  have p: "rnd (12 / 10) * n \<le> 2 * n" using mult_right_mono[OF r(2) assms(2)] .
  have q: "0 \<le> rnd (12 / 10) * n" using r(1) assms(2) by simp
  have k: "(of_int k :: rat) \<le> 2 ^ 53" using of_int_abs_le[of "2 * k" "2 ^ 53"] assms(4) by simp
  then have "\<bar>rnd (12 / 10) * n\<bar> \<le> 2 ^ 100" using p q assms(3) by simp
  then have v: "fp_of (b64_mul (b64_lit (12 / 10)) nominal) = Fin (rnd (rnd (12 / 10) * n))"
    by (intro b64_mul_val[OF l assms(1)] fits64_small)
  have "rnd (12 / 10) * n \<le> of_int (2 * k)" using p assms(3) by simp
  then have "rnd (rnd (12 / 10) * n) \<le> of_int (2 * k)"
    using rnd_mono[of "rnd (12 / 10) * n" "of_int (2 * k)"] rnd_of_int[of "2 * k"] assms(4) by simp
  with v show ?thesis by (rule that)
qed

text \<open>The first call of time_span measures from the epoch: with the clock after 1970-02-04 and a
  nominal period of at most 10^6 s it counts a missed cycle and stores the time since the
  epoch as a time span.\<close>

theorem tracker_first_span:
  assumes "ring R" "TimeSpanTracker R w nominal = Inr tr" "0 < w" "w < 2 ^ 31"
    and "fp_of nominal = Fin n" "0 \<le> n" "n \<le> 1000000" "3 * 10 ^ 15 \<le> now" "now < 2 ^ 63"
  shows "\<exists>tr'. time_span R now tr = Inr (True, tr') \<and> getMissedCycles tr' = 1 \<and>
    getTotalCycles tr' = 1 \<and> cb_get R (buffer tr') = [seconds now]"
proof -
  note new = new_tracker[OF assms(1,2)]
  obtain x where x: "fp_of (seconds now) = Fin x" "of_int 3000000 \<le> x"
    by (rule seconds_at_least[of 3000000 now]) (use assms(8,9) in auto)
  obtain y where y: "fp_of (b64_mul (b64_lit (12 / 10)) nominal) = Fin y" "y \<le> of_int (2 * 1000000)"
    by (rule late_limit[OF assms(5,6), of 1000000]) (use assms(7) in auto)
  have l: "late_span nominal (seconds now)"
    unfolding late_span_def using b64_less_val[OF y(1) x(1)] x(2) y(2) by simp
  have b: "rb_list R (rb_push_back R (seconds now) (buffer tr)) = [seconds now]"
    using assms(3,4) new by (intro ring.push_stays[OF assms(1)]) auto
  show ?thesis using assms(8,9) l b new
    by (simp add: time_span_def Let_def getMissedCycles_def getTotalCycles_def cb_get_def)
qed

lemma tracker_first_span_witness:
  "\<exists>tr'. time_span list_ring 1700000000000000000 demo_tracker = Inr (True, tr') \<and>
     getMissedCycles tr' = 1 \<and> cb_get list_ring (buffer tr') = [seconds 1700000000000000000]"
  using tracker_first_span[OF list_ring.ring_axioms demo_tracker, of 1 1700000000000000000] b64_of_int_val[of 1]
  by auto

subsection \<open>The minimum\<close>

lemma seconds_pos:
  assumes "0 < d" "d < 2 ^ 63" shows "b64_less (b64_of_int 0) (seconds d)"
proof -
  have "(of_int 1 :: rat) \<le> of_int d" using assms(1) by (simp only: of_int_le_iff)
  then have "rnd (of_int 1) \<le> rnd (of_int d)" by (rule rnd_mono)
  then have "1 \<le> rnd (of_int d)" using rnd_of_int[of 1] by simp
  then have "2 powi (-30) \<le> rnd (of_int d) / 10 ^ 9" by (simp add: power_int_def power_divide)
  then have "rnd (2 powi (-30)) \<le> rnd (rnd (of_int d) / 10 ^ 9)" by (rule rnd_mono)
  moreover have "rnd (2 powi (-30)) = 2 powi (-30)" using rnd_exact[OF representable_scaled[of 1 "-30"]] by simp
  ultimately have "0 < rnd (rnd (of_int d) / 10 ^ 9)" using two_powi_pos[of "-30"] by linarith
  then show ?thesis using seconds_val(1)[of d] assms b64_of_int_val[of 0] by (simp add: b64_less_val)
qed

lemma spans_positive:
  assumes "sorted_wrt (<) (l # map snd ops)" "clock_ok l" "\<forall>x\<in>set ops. clock_ok (snd x)"
  shows "\<forall>d\<in>set (spans_of l ops). 0 < d \<and> d < 2 ^ 63"
  using assms
proof (induction l ops rule: spans_of.induct)
  case (2 l op now ops)
  have n: "l < now" "clock_ok now" "sorted_wrt (<) (now # map snd ops)" using 2(3-5) by auto
  have "0 < now - l \<and> now - l < 2 ^ 63" using n(1,2) 2(4) by (simp add: clock_ok_def)
  then show ?case using 2(1,2) n 2(5) by auto
qed simp

text \<open>With a clock that advances, getMin of a tracker is always 0, however long the shortest span:
  the minimum starts from 0.\<close>

theorem tracker_min_zero:
  assumes "ring R" "TimeSpanTracker R w nominal = Inr tr" "\<forall>x\<in>set ops. clock_ok (snd x)"
    and "(\<forall>x\<in>set ops. fst x = Span) \<or> (\<forall>x\<in>set ops. fst x \<noteq> Span)"
    and "sorted_wrt (<) (0 # map snd ops)"
  shows "\<exists>tr'. tracker_run R ops tr = Inr (replicate (length ops) True, tr') \<and>
    getMin R tr' = b64_of_int 0"
proof -
  obtain tr' where tr': "tracker_run R ops tr = Inr (replicate (length ops) True, tr')"
    "rb_list R (buffer tr') = last_n (nat (w mod 2 ^ 64)) (map seconds (spans_of 0 ops))"
    using new_tracker_run[OF assms(1-4)] by blast
  have "\<forall>x\<in>set (map seconds (spans_of 0 ops)). b64_less (b64_of_int 0) x"
    using spans_positive[OF assms(5) _ assms(3)] by (auto simp: clock_ok_def intro!: seconds_pos)
  then have "\<forall>x\<in>set (rb_list R (buffer tr')). b64_less (b64_of_int 0) x"
    using tr'(2) last_n_set by force
  from cb_min_pos[OF this] tr'(1) show ?thesis by (simp add: getMin_def cb_get_def)
qed

lemma tracker_min_zero_witness:
  "\<exists>tr'. tracker_run list_ring [(Span, 1000), (Span, 2500)] demo_tracker = Inr ([True, True], tr') \<and>
     getMin list_ring tr' = b64_of_int 0"
  using tracker_min_zero[OF list_ring.ring_axioms demo_tracker, of "[(Span, 1000), (Span, 2500)]"]
  by (auto simp: clock_ok_def numeral_2_eq_2)

end
