(* ===== verification/Diagnostics.thy ===== *)
theory Diagnostics
  imports Time_Span_Tracker "HOL-Library.List_Lexorder" "HOL-Library.Char_ord"
begin

text \<open>
  \<open>DiagnosticsInterface\<close> of \<open>diagnostics_interface.h\<close> and \<open>.cpp\<close>: a queue of status messages,
  the reports that read it, and the table of time trackers. The status wrapper the reports
  are written to (\<open>diagnostic_updater\<close>) is a parameter with the locale \<open>status_wrapper\<close> as
  its documented laws. The queue and the reports are accessed under the object's mutex, so
  those calls are atomic; \<open>addTimeTracker\<close> and \<open>timeSpanStrakcer\<close> take no lock and are modelled
  as calls that no other call overlaps. The text of the local time is an argument.
\<close>

subsection \<open>Data\<close>

text \<open>The levels of \<open>diagnostic_msgs/DiagnosticStatus\<close>; a new message has level 0.\<close>

abbreviation (input) OK :: int where "OK \<equiv> 0"
abbreviation (input) WARN :: int where "WARN \<equiv> 1"
abbreviation (input) ERROR :: int where "ERROR \<equiv> 2"
abbreviation (input) STALE :: int where "STALE \<equiv> 3"

record status =
  st_level :: int
  st_name :: string
  st_message :: string
  st_hardware_id :: string
  st_values :: "(string \<times> string) list"

text \<open>\<open>time_span_tracker_\<close> maps a name to a shared pointer, \<open>None\<close> when it is null.\<close>

record 'b diagnostics_interface =
  hardware_id :: string
  name_id :: string
  timer_id :: string
  statuses :: "status list"
  trackers :: "(string \<times> 'b tracker option) list"
  periods :: "(string \<times> b64) list"

text \<open>\<open>std::map::operator[]\<close> on the list of a map's entries in the order of the keys.\<close>

fun map_put :: "'k::linorder \<Rightarrow> 'v \<Rightarrow> ('k \<times> 'v) list \<Rightarrow> ('k \<times> 'v) list" where
  "map_put k v [] = [(k, v)]"
| "map_put k v ((k', v') # m) =
     (if k = k' then (k, v) # m else if k < k' then (k, v) # (k', v') # m else (k', v') # map_put k v m)"

subsection \<open>The status wrapper\<close>

record 's status_lib =
  sw_set_hardware_id :: "string \<Rightarrow> 's \<Rightarrow> 's"
  sw_set_name :: "string \<Rightarrow> 's \<Rightarrow> 's"
  sw_set_level :: "int \<Rightarrow> 's \<Rightarrow> 's"
  sw_set_message :: "string \<Rightarrow> 's \<Rightarrow> 's"
  sw_summary :: "int \<Rightarrow> string \<Rightarrow> 's \<Rightarrow> 's"
  sw_add :: "string \<Rightarrow> string \<Rightarrow> 's \<Rightarrow> 's"
  sw_level :: "'s \<Rightarrow> int"
  sw_message :: "'s \<Rightarrow> string"
  sw_values :: "'s \<Rightarrow> (string \<times> string) list"

locale status_wrapper =
  fixes S :: "'s status_lib"
  assumes set_level: "sw_level S (sw_set_level S l s) = l" "sw_message S (sw_set_level S l s) = sw_message S s"
      "sw_values S (sw_set_level S l s) = sw_values S s"
    and set_message: "sw_message S (sw_set_message S m s) = m" "sw_level S (sw_set_message S m s) = sw_level S s"
      "sw_values S (sw_set_message S m s) = sw_values S s"
    and set_ids: "sw_values S (sw_set_hardware_id S h s) = sw_values S s"
      "sw_values S (sw_set_name S n s) = sw_values S s"
      "sw_level S (sw_set_hardware_id S h s) = sw_level S s" "sw_level S (sw_set_name S n s) = sw_level S s"
    and summary: "sw_level S (sw_summary S l m s) = l" "sw_message S (sw_summary S l m s) = m"
      "sw_values S (sw_summary S l m s) = sw_values S s"
    and add: "sw_values S (sw_add S k v s) = sw_values S s @ [(k, v)]"
      "sw_level S (sw_add S k v s) = sw_level S s" "sw_message S (sw_add S k v s) = sw_message S s"
begin

lemma fold_add:
  "sw_values S (fold (\<lambda>x. sw_add S (f x) (g x)) xs s) = sw_values S s @ map (\<lambda>x. (f x, g x)) xs"
  "sw_level S (fold (\<lambda>x. sw_add S (f x) (g x)) xs s) = sw_level S s"
  by (induction xs arbitrary: s) (simp_all add: add)

end

definition status_mem :: "status status_lib" where
  "status_mem = \<lparr>sw_set_hardware_id = (\<lambda>h s. s\<lparr>st_hardware_id := h\<rparr>),
     sw_set_name = (\<lambda>n s. s\<lparr>st_name := n\<rparr>), sw_set_level = (\<lambda>l s. s\<lparr>st_level := l\<rparr>),
     sw_set_message = (\<lambda>m s. s\<lparr>st_message := m\<rparr>),
     sw_summary = (\<lambda>l m s. s\<lparr>st_level := l, st_message := m\<rparr>),
     sw_add = (\<lambda>k v s. s\<lparr>st_values := st_values s @ [(k, v)]\<rparr>),
     sw_level = st_level, sw_message = st_message, sw_values = st_values\<rparr>"

interpretation status_mem: status_wrapper status_mem
  by unfold_locales (simp_all add: status_mem_def)

subsection \<open>Numbers as text\<close>

text \<open>
  \<open>to_string_fix\<close>: \<open>std::fixed\<close> with \<open>n\<close> digits prints the decimal nearest to the value, a tie
  to the even digit. The stream formats as \<open>printf\<close> does with the precision \<open>n\<close>, for which a
  negative one counts as none given, that is as 6.
\<close>

definition fix_precision :: "int \<Rightarrow> nat" where
  "fix_precision n = (if n < 0 then 6 else nat n)"

definition pad_zeros :: "nat \<Rightarrow> string \<Rightarrow> string" where
  "pad_zeros n s = replicate (n - length s) CHR ''0'' @ s"

definition fixed_digits :: "nat \<Rightarrow> nat \<Rightarrow> string" where
  "fixed_digits n m = string_of_nat (m div 10 ^ n) @
     (if n = 0 then '''' else ''.'' @ pad_zeros n (string_of_nat (m mod 10 ^ n)))"

definition to_string_fix :: "b64 \<Rightarrow> int \<Rightarrow> string" where
  "to_string_fix w n = (if b64_neg w then ''-'' else '''') @
     (case fp_of w of
        Fin x \<Rightarrow> fixed_digits (fix_precision n) (nat (rne (\<bar>x\<bar> * 10 ^ fix_precision n)))
      | Inf _ \<Rightarrow> ''inf''
      | NaN \<Rightarrow> ''nan'')"

subsection \<open>Messages and reports\<close>

definition diag_init :: "string \<Rightarrow> string \<Rightarrow> string \<Rightarrow> 'b diagnostics_interface \<Rightarrow> 'b diagnostics_interface" where
  "diag_init hw name timer d = d\<lparr>hardware_id := hw, name_id := name, timer_id := timer\<rparr>"

text \<open>
  \<open>addDiagnosticsMessage\<close>: \<open>key_values\<close> are the entries of the map in order; a report that is
  not null gets a line for one of the four levels. The result is the report and the object.
\<close>

definition addDiagnosticsMessage ::
  "string \<Rightarrow> string \<Rightarrow> (string \<times> string) list \<Rightarrow> string option \<Rightarrow> 'b diagnostics_interface
     \<Rightarrow> string option \<times> 'b diagnostics_interface" where
  "addDiagnosticsMessage level summary key_values report d =
     (let known = (level = ''OK'' \<or> level = ''WARN'' \<or> level = ''ERROR'' \<or> level = ''STALE'');
          diag = \<lparr>st_level = (if level = ''OK'' then OK else if level = ''WARN'' then WARN
                      else if level = ''ERROR'' then ERROR else if level = ''STALE'' then STALE else 0),
                  st_name = name_id d, st_message = summary, st_hardware_id = hardware_id d,
                  st_values = key_values\<rparr>
      in (case report of None \<Rightarrow> None
          | Some r \<Rightarrow> Some (if known then r @ ''['' @ hardware_id d @ ''] '' @ summary else r),
          d\<lparr>statuses := statuses d @ [diag]\<rparr>))"

definition diagnostics ::
  "'s status_lib \<Rightarrow> string \<Rightarrow> int \<Rightarrow> 's \<Rightarrow> 'b diagnostics_interface \<Rightarrow> 's \<times> 'b diagnostics_interface" where
  "diagnostics S now level stat d =
     (let s1 = sw_set_name S (name_id d @ ''['' @
                 (if level = OK then ''Info'' else if level = WARN then ''Warn'' else ''Error'') @ '']'')
                 (sw_set_hardware_id S (hardware_id d) stat)
      in if \<exists>s\<in>set (statuses d). st_level s = level then
           let s2 = sw_set_level S (if level = OK then OK else if level = WARN then WARN
                      else if level = ERROR then ERROR else STALE) s1;
               s3 = sw_summary S (sw_level S s2) (''Log of the status at ['' @ now @ '']'') s2;
               s4 = fold (\<lambda>s. sw_add S (st_name s) (st_message s)) (statuses d) s3
           in (s4, d\<lparr>statuses := filter (\<lambda>s. st_level s \<noteq> level) (statuses d)\<rparr>)
         else (sw_summary S OK (''None Error in the queue ['' @ now @ '']'') s1, d))"

definition diagnosticsInfo where "diagnosticsInfo S now = diagnostics S now OK"
definition diagnosticsWarn where "diagnosticsWarn S now = diagnostics S now WARN"
definition diagnosticsError where "diagnosticsError S now = diagnostics S now ERROR"

definition tracker_line :: "('b, b64) ring_lib \<Rightarrow> string \<Rightarrow> string \<times> 'b tracker \<Rightarrow> string \<times> string" where
  "tracker_line R timer x = (case x of (ident, tr) \<Rightarrow>
     (timer @ '' '' @ ident @ '' [s]'',
      to_string_fix (getMean R tr) 5 @ '' [ '' @ to_string_fix (getMin R tr) 5 @ '' - '' @
      to_string_fix (getMax R tr) 5 @ '' ] '' @ ''Missed: '' @
      string_of_nat (unat (getMissedCycles tr)) @ ''/'' @ string_of_nat (unat (getTotalCycles tr))))"

fun performance_loop ::
  "('b, b64) ring_lib \<Rightarrow> 's status_lib \<Rightarrow> string \<Rightarrow> (string \<times> 'b tracker option) list \<Rightarrow> 's \<Rightarrow> 's res" where
  "performance_loop R S timer [] stat = Inr stat"
| "performance_loop R S timer ((ident, p) # ts) stat =
     (case p of
        None \<Rightarrow> Inl Null_Deref
      | Some tr \<Rightarrow>
          let (key, value) = tracker_line R timer (ident, tr)
          in performance_loop R S timer ts (sw_add S key value stat))"

definition diagnosticsPerformance ::
  "('b, b64) ring_lib \<Rightarrow> 's status_lib \<Rightarrow> string \<Rightarrow> 's \<Rightarrow> 'b diagnostics_interface \<Rightarrow> 's res" where
  "diagnosticsPerformance R S now stat d =
     performance_loop R S (timer_id d) (trackers d)
       (sw_set_message S (''Cycle Time Statistics ['' @ now @ '']'')
          (sw_set_name S (name_id d) (sw_set_level S OK (sw_set_hardware_id S (hardware_id d) stat))))"

text \<open>
  \<open>addTimeTracker\<close>: the window is \<open>int(10.0/period)\<close>, undefined when it does not fit. The
  look-up \<open>time_span_tracker_[id]\<close> puts a null pointer under a new name; when the constructor
  of the tracker then throws, that entry stays. \<open>early\<close> says that the look-up is evaluated
  before the new tracker: C++17 asks for it, C++14 (which the build sets) leaves it to the
  compiler. The result is the outcome of the call and the object it leaves.
\<close>

definition in_s32 :: "int \<Rightarrow> bool" where "in_s32 k \<longleftrightarrow> - (2 ^ 31) \<le> k \<and> k < 2 ^ 31"

definition make_tracker :: "('b, b64) ring_lib \<Rightarrow> b64 \<Rightarrow> 'b tracker res" where
  "make_tracker R period =
     bind_res (b64_to_int in_s32 (b64_div (b64_lit 10) period)) (\<lambda>w. TimeSpanTracker R w period)"

definition map_entry :: "'k::linorder \<Rightarrow> 'v \<Rightarrow> ('k \<times> 'v) list \<Rightarrow> ('k \<times> 'v) list" where
  "map_entry k v m = (if map_of m k = None then map_put k v m else m)"

definition addTimeTracker ::
  "bool \<Rightarrow> ('b, b64) ring_lib \<Rightarrow> string \<Rightarrow> b64 \<Rightarrow> 'b diagnostics_interface
     \<Rightarrow> unit res \<times> 'b diagnostics_interface" where
  "addTimeTracker early R ident period d =
     (case make_tracker R period of
        Inl e \<Rightarrow> (Inl e, if early then d\<lparr>trackers := map_entry ident None (trackers d)\<rparr> else d)
      | Inr tr \<Rightarrow> (Inr (), d\<lparr>trackers := map_put ident (Some tr) (trackers d),
            periods := map_put ident period (periods d)\<rparr>))"

text \<open>\<open>timeSpanStrakcer\<close> returns the pointer under a name, which may be null; \<open>at\<close> throws.\<close>

definition timeSpanStrakcer :: "string \<Rightarrow> 'b diagnostics_interface \<Rightarrow> 'b tracker option res" where
  "timeSpanStrakcer ident d = (case map_of (trackers d) ident of
     Some p \<Rightarrow> Inr p | None \<Rightarrow> Inl (Uncaught ''map::at''))"

subsection \<open>Reports\<close>

lemma diagnostics_result:
  assumes "status_wrapper S" "\<exists>s\<in>set (statuses d). st_level s = level"
  shows "diagnostics S now level stat d = (fst (diagnostics S now level stat d),
      d\<lparr>statuses := filter (\<lambda>s. st_level s \<noteq> level) (statuses d)\<rparr>)"
    "sw_values S (fst (diagnostics S now level stat d))
      = sw_values S stat @ map (\<lambda>s. (st_name s, st_message s)) (statuses d)"
    "sw_level S (fst (diagnostics S now level stat d)) = (if level \<in> {OK, WARN, ERROR} then level else STALE)"
  using assms(2)
  by (simp_all add: diagnostics_def Let_def status_wrapper.fold_add[OF assms(1)]
      status_wrapper.set_level[OF assms(1)] status_wrapper.set_ids[OF assms(1)]
      status_wrapper.summary[OF assms(1)])

lemma diagnostics_quiet:
  assumes "status_wrapper S" "\<forall>s\<in>set (statuses d). st_level s \<noteq> level"
  shows "diagnostics S now level stat d = (fst (diagnostics S now level stat d), d)"
    "sw_values S (fst (diagnostics S now level stat d)) = sw_values S stat"
    "sw_level S (fst (diagnostics S now level stat d)) = OK"
  using assms(2)
  by (auto simp: diagnostics_def Let_def status_wrapper.set_ids[OF assms(1)] status_wrapper.summary[OF assms(1)])

lemma diagnostics_state:
  assumes "status_wrapper S"
  shows "snd (diagnostics S now level stat d) = d\<lparr>statuses := filter (\<lambda>s. st_level s \<noteq> level) (statuses d)\<rparr>"
proof (cases "\<exists>s\<in>set (statuses d). st_level s = level")
  case True
  from diagnostics_result(1)[OF assms True, of now stat] show ?thesis by (metis snd_conv)
next
  case False
  then have "d\<lparr>statuses := filter (\<lambda>s. st_level s \<noteq> level) (statuses d)\<rparr> = d"
    by (auto simp: filter_id_conv)
  with diagnostics_quiet(1)[OF assms, of d level now stat] False show ?thesis by (metis snd_conv)
qed

text \<open>C26: diagnostics reports every queued message when one of the asked level is queued, with
  that level, and nothing with level OK otherwise; either way exactly the messages of that
  level leave the queue.\<close>

theorem diagnostics_reports:
  assumes "status_wrapper S"
  shows "\<exists>stat'. diagnostics S now level stat d
      = (stat', d\<lparr>statuses := filter (\<lambda>s. st_level s \<noteq> level) (statuses d)\<rparr>) \<and>
    (if \<exists>s\<in>set (statuses d). st_level s = level
     then sw_values S stat' = sw_values S stat @ map (\<lambda>s. (st_name s, st_message s)) (statuses d) \<and>
       sw_level S stat' = (if level \<in> {OK, WARN, ERROR} then level else STALE)
     else sw_values S stat' = sw_values S stat \<and> sw_level S stat' = OK)"
proof -
  have p: "diagnostics S now level stat d = (fst (diagnostics S now level stat d),
      d\<lparr>statuses := filter (\<lambda>s. st_level s \<noteq> level) (statuses d)\<rparr>)"
    using diagnostics_state[OF assms, of now level stat d] by (metis prod.collapse)
  show ?thesis
  proof (cases "\<exists>s\<in>set (statuses d). st_level s = level")
    case True
    show ?thesis by (rule exI, rule conjI, rule p)
        (simp only: True if_True diagnostics_result(2,3)[OF assms True])
  next
    case False
    then have "\<forall>s\<in>set (statuses d). st_level s \<noteq> level" by blast
    note q = diagnostics_quiet(2,3)[OF assms this]
    show ?thesis by (rule exI, rule conjI, rule p) (simp only: False if_False q)
  qed
qed

definition demo_status :: "int \<Rightarrow> string \<Rightarrow> status" where
  "demo_status l m = \<lparr>st_level = l, st_name = ''arm'', st_message = m, st_hardware_id = ''hw'', st_values = []\<rparr>"

definition demo_diag :: "status list \<Rightarrow> (nat \<times> b64 list) diagnostics_interface" where
  "demo_diag ss = \<lparr>hardware_id = ''hw'', name_id = ''arm'', timer_id = ''t'', statuses = ss,
     trackers = [], periods = []\<rparr>"

lemma demo_values: "sw_values status_mem \<lparr>st_level = l, st_name = n, st_message = m, st_hardware_id = h, st_values = v\<rparr> = v"
  by (simp add: status_mem_def)

lemma diagnostics_reports_witness:
  "\<exists>stat'. diagnostics status_mem ''12:00'' OK (demo_status 0 [])
       (demo_diag [demo_status OK ''fine'', demo_status ERROR ''hot''])
     = (stat', demo_diag [demo_status ERROR ''hot'']) \<and>
     sw_values status_mem stat' = [(''arm'', ''fine''), (''arm'', ''hot'')]"
  using diagnostics_reports[OF status_mem.status_wrapper_axioms, of "''12:00''" OK "demo_status 0 []"
      "demo_diag [demo_status OK ''fine'', demo_status ERROR ''hot'']"]
  by (auto simp: demo_diag_def demo_status_def demo_values)

subsection \<open>What never leaves the queue\<close>

datatype diag_event = Add string string "(string \<times> string) list" | Report int

fun diag_run :: "'s status_lib \<Rightarrow> string \<Rightarrow> 's \<Rightarrow> diag_event list \<Rightarrow> 'b diagnostics_interface \<Rightarrow> 'b diagnostics_interface" where
  "diag_run S now stat [] d = d"
| "diag_run S now stat (Add level summary kvs # es) d =
     diag_run S now stat es (snd (addDiagnosticsMessage level summary kvs None d))"
| "diag_run S now stat (Report level # es) d = diag_run S now stat es (snd (diagnostics S now level stat d))"

definition stale_messages :: "'b diagnostics_interface \<Rightarrow> string list" where
  "stale_messages d = map st_message (filter (\<lambda>s. st_level s = STALE) (statuses d))"

text \<open>The three reports for info, warnings and errors never take a STALE message out of the queue:
  all of them stay, in order.\<close>

theorem diagnostics_stale_stays:
  assumes "status_wrapper S" "\<forall>l. Report l \<in> set es \<longrightarrow> l \<in> {OK, WARN, ERROR}"
  shows "stale_messages (diag_run S now stat es d) =
    stale_messages d @ concat (map (\<lambda>e. case e of Add level summary kvs \<Rightarrow>
      if level = ''STALE'' then [summary] else [] | Report _ \<Rightarrow> []) es)"
  using assms(2)
proof (induction es arbitrary: d)
  case (Cons e es)
  show ?case
  proof (cases e)
    case (Add level summary kvs)
    have "stale_messages (snd (addDiagnosticsMessage level summary kvs None d))
        = stale_messages d @ (if level = ''STALE'' then [summary] else [])"
      by (simp add: addDiagnosticsMessage_def Let_def stale_messages_def)
    with Cons.IH[of "snd (addDiagnosticsMessage level summary kvs None d)"] Cons.prems Add
    show ?thesis by simp
  next
    case (Report l)
    then have "l \<in> {OK, WARN, ERROR}" using Cons.prems by simp
    then have "stale_messages (snd (diagnostics S now l stat d)) = stale_messages d"
      unfolding diagnostics_state[OF assms(1)] stale_messages_def by (auto intro!: filter_cong arg_cong[of _ _ "map _"])
    with Cons.IH[of "snd (diagnostics S now l stat d)"] Cons.prems Report show ?thesis by simp
  qed
qed simp

lemma diagnostics_stale_stays_witness:
  "stale_messages (diag_run status_mem ''12:00'' (demo_status 0 [])
     [Add ''STALE'' ''lost'' [], Add ''WARN'' ''hot'' [], Report WARN, Report ERROR, Add ''STALE'' ''gone'' [], Report OK]
     (demo_diag [])) = [''lost'', ''gone'']"
  using diagnostics_stale_stays[OF status_mem.status_wrapper_axioms,
      of "[Add ''STALE'' ''lost'' [], Add ''WARN'' ''hot'' [], Report WARN, Report ERROR, Add ''STALE'' ''gone'' [], Report OK]"
        "''12:00''" "demo_status 0 []" "demo_diag []"]
  by (simp add: demo_diag_def stale_messages_def)

subsection \<open>Slow trackers\<close>

lemma map_of_put: "map_of (map_put k v m) = (map_of m)(k \<mapsto> v)"
  by (induction k v m rule: map_put.induct) auto

lemma map_put_put: "map_put k v (map_put k v' m) = map_put k v m"
  by (induction k v m rule: map_put.induct) auto

lemma map_put_sorted:
  "sorted_wrt (<) (map fst m) \<Longrightarrow> sorted_wrt (<) (map fst (map_put k v m)) \<and>
     set (map fst (map_put k v m)) = insert k (set (map fst m))"
  by (induction k v m rule: map_put.induct) (auto dest: order_less_trans)

lemma tracker_op_capacity:
  assumes "ring R" "tracker_op R op now tr = Inr (b, tr')"
  shows "rb_capacity R (buffer tr') = rb_capacity R (buffer tr)"
  using assms(2) ring.push_back(2)[OF assms(1)]
  by (cases op) (auto simp: tracker_op_def time_span_def tick_def tock_def Let_def res_simps split: if_splits)

lemma tracker_run_capacity:
  assumes "ring R"
  shows "tracker_run R ops tr = Inr (bs, tr') \<Longrightarrow> rb_capacity R (buffer tr') = rb_capacity R (buffer tr)"
proof (induction ops arbitrary: tr bs)
  case (Cons x ops)
  then show ?case using tracker_op_capacity[OF assms] by (cases x) (fastforce simp: res_simps)
qed simp

lemma window_of_slow:
  assumes "fp_of period = Fin p" "11 \<le> p"
  shows "b64_to_int in_s32 (b64_div (b64_lit 10) period) = Inr 0"
proof -
  have ten: "fp_of (b64_lit 10) = Fin 10" using b64_lit_int[of 10] by simp
  have q: "0 \<le> 10 / p" "10 / p \<le> 15 * 2 powi (-4)" using assms(2) by (simp_all add: power_int_def field_simps)
  have "rnd (15 * 2 powi (-4)) = 15 * 2 powi (-4)" using rnd_exact[OF representable_scaled[of 15 "-4"]] by simp
  then have r: "0 \<le> rnd (10 / p)" "rnd (10 / p) \<le> 15 * 2 powi (-4)"
    using rnd_nonneg[OF q(1)] rnd_mono[OF q(2)] by simp_all
  have "rnd (10 / p) < 1" using r(2) by (simp add: power_int_def power_divide)
  then have "\<lfloor>rnd (10 / p)\<rfloor> = 0" using r(1) by (simp add: floor_eq_iff)
  moreover have "fp_of (b64_div (b64_lit 10) period) = Fin (rnd (10 / p))"
    using q assms(2) by (intro b64_div_val[OF ten assms(1)] fits64_small) (auto simp: power_int_def power_divide)
  ultimately show ?thesis using r(1) by (simp add: b64_to_int_def rat_trunc_def in_s32_def)
qed

text \<open>A tracker added for a period of 11 s or more gets a window of int(10/period) = 0 elements
  and keeps nothing: mean, maximum and minimum are 0 after any calls.\<close>

theorem slow_tracker_empty:
  assumes "ring R" "fp_of period = Fin p" "11 \<le> p" "rb_set_capacity R 0 (rb_default R) \<noteq> None"
  shows "\<exists>d' tr. addTimeTracker early R ident period d = (Inr (), d') \<and> timeSpanStrakcer ident d' = Inr (Some tr) \<and>
    (\<forall>ops bs tr'. tracker_run R ops tr = Inr (bs, tr') \<longrightarrow>
       getMean R tr' = b64_of_int 0 \<and> getMax R tr' = b64_of_int 0 \<and> getMin R tr' = b64_of_int 0)"
proof -
  obtain tr where tr: "TimeSpanTracker R 0 period = Inr tr"
    using assms(4) by (auto simp: TimeSpanTracker_def circ_buffer_def)
  have c: "rb_capacity R (buffer tr) = 0" using new_tracker(7)[OF assms(1) tr] by simp
  have e: "rb_list R (buffer tr') = []" if "tracker_run R ops tr = Inr (bs, tr')" for ops bs tr'
    using tracker_run_capacity[OF assms(1) that] ring.bounded[OF assms(1), of "buffer tr'"] c by simp
  have z: "cb_mean [] = b64_of_int 0" "cb_max [] = b64_of_int 0" "cb_min [] = b64_of_int 0"
    by (simp_all add: cb_mean_def cb_max_def cb_min_def)
  show ?thesis
    using tr window_of_slow[OF assms(2,3)] e z
    by (auto simp: addTimeTracker_def make_tracker_def timeSpanStrakcer_def map_of_put getMean_def getMax_def getMin_def cb_get_def)
qed

lemma slow_tracker_empty_witness:
  "\<exists>d' tr. addTimeTracker True list_ring ''slow'' (b64_of_int 60) (demo_diag []) = (Inr (), d') \<and>
     timeSpanStrakcer ''slow'' d' = Inr (Some tr) \<and> getMax list_ring tr = b64_of_int 0"
proof -
  have "\<exists>d' tr. addTimeTracker True list_ring ''slow'' (b64_of_int 60) (demo_diag []) = (Inr (), d') \<and>
      timeSpanStrakcer ''slow'' d' = Inr (Some tr) \<and>
      (\<forall>ops bs tr'. tracker_run list_ring ops tr = Inr (bs, tr') \<longrightarrow>
        getMean list_ring tr' = b64_of_int 0 \<and> getMax list_ring tr' = b64_of_int 0 \<and>
        getMin list_ring tr' = b64_of_int 0)"
    by (rule slow_tracker_empty[OF list_ring.ring_axioms, of "b64_of_int 60" 60])
      (use b64_of_int_val[of 60] in \<open>simp_all add: list_ring_def\<close>)
  then show ?thesis by (metis tracker_run.simps(1))
qed

subsection \<open>Reading a fixed number back\<close>

lemma nat_of_string_append: "nat_of_string (s @ t) = nat_of_string s * 10 ^ length t + nat_of_string t"
proof -
  have f: "foldl (\<lambda>acc c. 10 * acc + (of_char c - 48)) a t = a * 10 ^ length t + nat_of_string t" for a :: nat
  proof (induction t rule: rev_induct)
    case (snoc c t)
    then show ?case by (simp add: nat_of_string_def algebra_simps)
  qed (simp add: nat_of_string_def)
  show ?thesis using f[of "nat_of_string s"] by (simp add: nat_of_string_def)
qed

lemma nat_of_string_zeros: "nat_of_string (replicate k CHR ''0'') = 0"
  by (induction k) (simp_all add: nat_of_string_def)

lemma length_string_of_nat: "m < 10 ^ n \<Longrightarrow> 0 < n \<Longrightarrow> length (string_of_nat m) \<le> n"
proof (induction m arbitrary: n rule: string_of_nat.induct)
  case (1 m)
  show ?case
  proof (cases "m < 10")
    case True
    then show ?thesis using 1(3) by (subst string_of_nat.simps) simp
  next
    case False
    then obtain k where k: "n = Suc k" "0 < k" using 1(2,3) by (cases n; cases "n - 1") auto
    then have "m div 10 < 10 ^ k" using 1(2) by (simp add: less_mult_imp_div_less)
    from 1(1)[OF False this k(2)] show ?thesis using False k(1) by (subst string_of_nat.simps) simp
  qed
qed

lemma length_pad: "length s \<le> n \<Longrightarrow> length (pad_zeros n s) = n"
  by (simp add: pad_zeros_def)

lemma nat_of_pad: "nat_of_string (pad_zeros n s) = nat_of_string s"
  by (simp add: pad_zeros_def nat_of_string_append nat_of_string_zeros)

lemma no_point: "CHR ''.'' \<notin> set (string_of_nat m)" "CHR ''-'' \<notin> set (string_of_nat m)"
  using string_of_nat_digit[of "CHR ''.''" m] string_of_nat_digit[of "CHR ''-''" m] by auto

text \<open>The number a text of digits with a point stands for.\<close>

definition fixed_value :: "string \<Rightarrow> rat" where
  "fixed_value s = (let t = (if take 1 s = ''-'' then drop 1 s else s);
       i = takeWhile (\<lambda>c. c \<noteq> CHR ''.'') t; f = drop (length i + 1) t
     in (if take 1 s = ''-'' then -1 else 1) * of_nat (nat_of_string (i @ f)) / 10 ^ length f)"

lemma fixed_digits_parts:
  assumes "0 < n"
  shows "takeWhile (\<lambda>c. c \<noteq> CHR ''.'') (fixed_digits n m) = string_of_nat (m div 10 ^ n)"
    "drop (length (string_of_nat (m div 10 ^ n)) + 1) (fixed_digits n m) = pad_zeros n (string_of_nat (m mod 10 ^ n))"
    "take 1 (fixed_digits n m) \<noteq> ''-''"
proof -
  have t: "fixed_digits n m = string_of_nat (m div 10 ^ n) @ CHR ''.'' # pad_zeros n (string_of_nat (m mod 10 ^ n))"
    using assms by (simp add: fixed_digits_def)
  show "takeWhile (\<lambda>c. c \<noteq> CHR ''.'') (fixed_digits n m) = string_of_nat (m div 10 ^ n)"
    unfolding t using no_point(1)[of "m div 10 ^ n"] by (subst takeWhile_append2) auto
  show "drop (length (string_of_nat (m div 10 ^ n)) + 1) (fixed_digits n m) = pad_zeros n (string_of_nat (m mod 10 ^ n))"
    unfolding t by simp
  show "take 1 (fixed_digits n m) \<noteq> ''-''"
    using no_point(2)[of "m div 10 ^ n"] string_of_nat_ne[of "m div 10 ^ n"]
    unfolding t by (cases "string_of_nat (m div 10 ^ n)") auto
qed

lemma fixed_value_digits:
  assumes "0 < n"
  shows "fixed_value ((if neg then ''-'' else []) @ fixed_digits n m) = (if neg then -1 else 1) * of_nat m / 10 ^ n"
proof -
  note p = fixed_digits_parts[OF assms, of m]
  have l: "length (pad_zeros n (string_of_nat (m mod 10 ^ n))) = n"
    using assms by (intro length_pad length_string_of_nat) auto
  have v: "nat_of_string (string_of_nat (m div 10 ^ n) @ pad_zeros n (string_of_nat (m mod 10 ^ n))) = m"
    by (simp add: nat_of_string_append l nat_of_pad nat_of_string_of_nat div_mult_mod_eq)
  have "length (fixed_digits n m) - Suc (length (string_of_nat (m div 10 ^ n))) = n"
    using arg_cong[OF p(2), of length] l by simp
  then show ?thesis using p v by (auto simp: fixed_value_def Let_def)
qed

text \<open>C33: For a finite double, to_string_fix with n digits (n not 0, a negative n counting as 6)
  prints a number within half a unit of the last digit of its value.\<close>

theorem to_string_fix_close:
  assumes "fp_of w = Fin x" "n \<noteq> 0"
  shows "\<bar>fixed_value (to_string_fix w n) - x\<bar> \<le> 1 / 2 / 10 ^ (if n < 0 then 6 else nat n)"
proof -
  let ?n = "fix_precision n"
  let ?k = "rne (\<bar>x\<bar> * 10 ^ ?n)"
  have n: "0 < ?n" "(if n < 0 then 6 else nat n) = ?n" using assms(2) by (simp_all add: fix_precision_def)
  have k0: "0 \<le> ?k" by (rule rne_ge) simp
  have sgn: "x = (if b64_neg w then - \<bar>x\<bar> else \<bar>x\<bar>)"
    using assms(1) mag_nonneg[of "b64_bits w"] b64_bits_range[of w]
    by (auto simp: fp_of_def Let_def split: if_splits)
  have v: "fixed_value (to_string_fix w n) = (if b64_neg w then -1 else 1) * of_int ?k / 10 ^ ?n"
    using fixed_value_digits[OF n(1), of "b64_neg w" "nat ?k"] k0
    by (simp add: to_string_fix_def assms(1))
  have "\<bar>of_int ?k / 10 ^ ?n - \<bar>x\<bar>\<bar> = \<bar>of_int ?k - \<bar>x\<bar> * 10 ^ ?n\<bar> / 10 ^ ?n"
    by (simp add: field_simps abs_divide)
  also have "\<dots> \<le> 1 / 2 / 10 ^ ?n" by (intro divide_right_mono rne_error) simp
  finally have e: "\<bar>of_int ?k / 10 ^ ?n - \<bar>x\<bar>\<bar> \<le> 1 / 2 / 10 ^ ?n" .
  show ?thesis
  proof (cases "b64_neg w")
    case True
    then have "fixed_value (to_string_fix w n) - x = - (of_int ?k / 10 ^ ?n - \<bar>x\<bar>)" using v sgn by simp
    then show ?thesis using e unfolding n(2) by (simp only: abs_minus_cancel)
  next
    case False
    then have "fixed_value (to_string_fix w n) - x = of_int ?k / 10 ^ ?n - \<bar>x\<bar>" using v sgn by simp
    then show ?thesis using e unfolding n(2) by simp
  qed
qed

lemma to_string_fix_close_witness: "\<bar>fixed_value (to_string_fix (b64_of_int 3) 5) - 3\<bar> \<le> 1 / 200000"
  using to_string_fix_close[of "b64_of_int 3" 3 5] b64_of_int_val[of 3] by simp

end
