(* ===== verification/Diagnostics_Calls.thy ===== *)
theory Diagnostics_Calls
  imports Diagnostics "HOL-Library.Sublist"
begin

text \<open>
  \<open>DiagnosticsInterface\<close> as an object over its life: sequences of its calls and of the calls a
  user makes on the trackers it hands out, the well-formedness of its two maps, look-up after
  insertion, and the performance report of what the trackers measured.
\<close>

subsection \<open>Calls\<close>

text \<open>
  A tracker is reached through the shared pointer \<open>timeSpanStrakcer\<close> returns, so a call on it
  changes the object in the table; a null pointer is dereferenced.
\<close>

definition track ::
  "('b, b64) ring_lib \<Rightarrow> string \<Rightarrow> track_op \<Rightarrow> int \<Rightarrow> 'b diagnostics_interface
     \<Rightarrow> (bool \<times> 'b diagnostics_interface) res" where
  "track R ident op now d =
     bind_res (timeSpanStrakcer ident d) (\<lambda>p.
       case p of
         None \<Rightarrow> Inl Null_Deref
       | Some tr \<Rightarrow> bind_res (tracker_op R op now tr) (\<lambda>(b, tr').
           Inr (b, d\<lparr>trackers := map_put ident (Some tr') (trackers d)\<rparr>)))"

datatype 's diag_op =
    Init_Call string string string
  | Message string string "(string \<times> string) list" "string option"
  | Report_Call string int 's
  | Performance_Call string 's
  | Add_Tracker string b64
  | Track string track_op int

text \<open>
  The outcome of one call and the object it leaves. A caller goes on after an exception
  (\<open>Uncaught\<close> by the call) with the object as the call left it; undefined behaviour ends a
  sequence.
\<close>

fun diag_call ::
  "bool \<Rightarrow> ('b, b64) ring_lib \<Rightarrow> 's status_lib \<Rightarrow> 's diag_op \<Rightarrow> 'b diagnostics_interface
     \<Rightarrow> unit res \<times> 'b diagnostics_interface"
where
  "diag_call early R S (Init_Call hw name timer) d = (Inr (), diag_init hw name timer d)"
| "diag_call early R S (Message level summary kvs report) d =
     (Inr (), snd (addDiagnosticsMessage level summary kvs report d))"
| "diag_call early R S (Report_Call now level stat) d = (Inr (), snd (diagnostics S now level stat d))"
| "diag_call early R S (Performance_Call now stat) d =
     (bind_res (diagnosticsPerformance R S now stat d) (\<lambda>_. Inr ()), d)"
| "diag_call early R S (Add_Tracker ident period) d = addTimeTracker early R ident period d"
| "diag_call early R S (Track ident op now) d =
     (case track R ident op now d of Inl e \<Rightarrow> (Inl e, d) | Inr (b, d') \<Rightarrow> (Inr (), d'))"

definition caught :: "unit res \<Rightarrow> bool" where
  "caught r = (case r of Inr _ \<Rightarrow> True | Inl e \<Rightarrow> (case e of Uncaught _ \<Rightarrow> True | _ \<Rightarrow> False))"

fun diag_calls ::
  "bool \<Rightarrow> ('b, b64) ring_lib \<Rightarrow> 's status_lib \<Rightarrow> 's diag_op list \<Rightarrow> 'b diagnostics_interface
     \<Rightarrow> 'b diagnostics_interface res"
where
  "diag_calls early R S [] d = Inr d"
| "diag_calls early R S (c # cs) d =
     (let (r, d1) = diag_call early R S c d in
      if caught r then diag_calls early R S cs d1 else bind_res r (\<lambda>_. Inr d1))"

lemma diag_calls_cons:
  "diag_calls early R S (c # cs) d = Inr d' \<longleftrightarrow>
     (\<exists>r d1. diag_call early R S c d = (r, d1) \<and> caught r \<and> diag_calls early R S cs d1 = Inr d')"
proof -
  obtain r d1 where c: "diag_call early R S c d = (r, d1)" by force
  have "\<not> caught r \<Longrightarrow> \<exists>e. r = Inl e" by (cases r) (simp_all add: caught_def)
  then show ?thesis using c by (auto simp: res_simps)
qed

definition diag_empty :: "'b diagnostics_interface" where
  "diag_empty = \<lparr>hardware_id = [], name_id = [], timer_id = [], statuses = [], trackers = [], periods = []\<rparr>"

subsection \<open>Well-formed objects\<close>

text \<open>
  Both maps are sorted without a double key. A tracker has the nominal period stored for its
  name and a window of the size computed from that period; a name without a tracker, absent
  or with a null pointer, has no period.
\<close>

definition tracker_for :: "('b, b64) ring_lib \<Rightarrow> b64 \<Rightarrow> 'b tracker \<Rightarrow> bool" where
  "tracker_for R period tr \<longleftrightarrow> nominal_time_span tr = period \<and>
     (\<exists>w. b64_to_int in_s32 (b64_div (b64_lit 10) period) = Inr w \<and>
        rb_capacity R (buffer tr) = nat (w mod 2 ^ 64))"

definition entry_ok :: "('b, b64) ring_lib \<Rightarrow> b64 option \<Rightarrow> 'b tracker option option \<Rightarrow> bool" where
  "entry_ok R q p \<longleftrightarrow>
     (case p of Some (Some tr) \<Rightarrow> (\<exists>period. q = Some period \<and> tracker_for R period tr) | _ \<Rightarrow> q = None)"

definition diag_ok :: "('b, b64) ring_lib \<Rightarrow> 'b diagnostics_interface \<Rightarrow> bool" where
  "diag_ok R d \<longleftrightarrow> sorted_wrt (<) (map fst (trackers d)) \<and> sorted_wrt (<) (map fst (periods d)) \<and>
     (\<forall>ident. entry_ok R (map_of (periods d) ident) (map_of (trackers d) ident))"

lemma entry_put:
  assumes "\<forall>i. entry_ok R (map_of q i) (map_of p i)"
  shows "tracker_for R period tr \<Longrightarrow>
      \<forall>i. entry_ok R (map_of (map_put k period q) i) (map_of (map_put k (Some tr) p) i)"
    "map_of p k = Some (Some tr) \<Longrightarrow> (\<And>period. tracker_for R period tr \<Longrightarrow> tracker_for R period tr') \<Longrightarrow>
      \<forall>i. entry_ok R (map_of q i) (map_of (map_put k (Some tr') p) i)"
    "\<forall>i. entry_ok R (map_of q i) (map_of (map_entry k None p) i)"
proof -
  show "\<forall>i. entry_ok R (map_of (map_put k period q) i) (map_of (map_put k (Some tr) p) i)"
    if "tracker_for R period tr"
    using assms that by (simp add: map_of_put entry_ok_def)
  show "\<forall>i. entry_ok R (map_of q i) (map_of (map_put k (Some tr') p) i)"
    if "map_of p k = Some (Some tr)" "\<And>period. tracker_for R period tr \<Longrightarrow> tracker_for R period tr'"
    using assms[rule_format, of k] assms that by (auto simp: map_of_put entry_ok_def)
  show "\<forall>i. entry_ok R (map_of q i) (map_of (map_entry k None p) i)"
    using assms[rule_format, of k] assms
    by (cases "map_of p k") (auto simp: map_entry_def map_of_put entry_ok_def)
qed

lemma map_entry_sorted:
  "sorted_wrt (<) (map fst m) \<Longrightarrow> sorted_wrt (<) (map fst (map_entry k v m))"
  using map_put_sorted[of m k v] by (simp add: map_entry_def)

text \<open>Putting a changed value back under its own key leaves the keys alone.\<close>

lemma map_put_same_keys: "map_of m k = Some v0 \<Longrightarrow> sorted_wrt (<) (map fst m) \<Longrightarrow> map fst (map_put k v m) = map fst m"
proof (induction k v m rule: map_put.induct)
  case (2 k v k1 v1 m)
  then show ?case using map_of_SomeD[of m k v0] by (force split: if_splits)
qed simp

lemma tracker_op_keeps:
  assumes "ring R" "tracker_op R op now tr = Inr (b, tr')"
  shows "nominal_time_span tr' = nominal_time_span tr \<and> rb_capacity R (buffer tr') = rb_capacity R (buffer tr)"
  using assms(2) ring.push_back(2)[OF assms(1)]
  by (cases op) (auto simp: tracker_op_def time_span_def tick_def tock_def Let_def res_simps split: if_splits)

lemma make_tracker_for:
  assumes "ring R" "make_tracker R period = Inr tr"
  shows "tracker_for R period tr"
proof -
  obtain w where w: "b64_to_int in_s32 (b64_div (b64_lit 10) period) = Inr w" "TimeSpanTracker R w period = Inr tr"
    using assms(2) by (auto simp: make_tracker_def res_simps)
  then show ?thesis using new_tracker(1,7)[OF assms(1) w(2)] by (simp add: tracker_for_def)
qed

lemma add_tracker_doneE:
  assumes "addTimeTracker early R ident period d = (Inr (), d')"
  obtains w tr where "TimeSpanTracker R w period = Inr tr"
    "d' = d\<lparr>trackers := map_put ident (Some tr) (trackers d), periods := map_put ident period (periods d)\<rparr>"
  using assms by (auto simp: addTimeTracker_def make_tracker_def res_simps split: sum.splits if_splits)

lemma track_doneE:
  assumes "track R ident op now d = Inr x"
  obtains tr b tr' where "map_of (trackers d) ident = Some (Some tr)" "tracker_op R op now tr = Inr (b, tr')"
    "x = (b, d\<lparr>trackers := map_put ident (Some tr') (trackers d)\<rparr>)"
  using assms by (auto simp: track_def timeSpanStrakcer_def res_simps split: option.splits)

lemma diag_call_ok:
  assumes "ring R" "diag_ok R d" "diag_call early R S c d = (r, d')"
  shows "diag_ok R d'"
proof -
  have ok: "sorted_wrt (<) (map fst (trackers d))" "sorted_wrt (<) (map fst (periods d))"
    "\<forall>i. entry_ok R (map_of (periods d) i) (map_of (trackers d) i)"
    using assms(2) by (simp_all add: diag_ok_def)
  show ?thesis
  proof (cases c)
    case (Add_Tracker ident period)
    show ?thesis
    proof (cases "make_tracker R period")
      case (Inl e)
      have "diag_ok R (d\<lparr>trackers := map_entry ident None (trackers d)\<rparr>)"
        using map_entry_sorted[OF ok(1), of ident None] ok(2) entry_put(3)[OF ok(3), of ident]
        by (simp add: diag_ok_def)
      then show ?thesis using assms(2,3) Add_Tracker Inl by (auto simp: addTimeTracker_def)
    next
      case (Inr tr)
      have "diag_ok R (d\<lparr>trackers := map_put ident (Some tr) (trackers d), periods := map_put ident period (periods d)\<rparr>)"
        using map_put_sorted[OF ok(1), of ident "Some tr"] map_put_sorted[OF ok(2), of ident period]
          entry_put(1)[OF ok(3) make_tracker_for[OF assms(1) Inr], of ident]
        by (simp add: diag_ok_def)
      then show ?thesis using assms(3) Add_Tracker Inr by (auto simp: addTimeTracker_def)
    qed
  next
    case (Track ident op now)
    show ?thesis
    proof (cases "track R ident op now d")
      case (Inl e)
      then show ?thesis using assms(2,3) Track by simp
    next
      case (Inr x)
      then obtain tr b tr' where t: "map_of (trackers d) ident = Some (Some tr)" "tracker_op R op now tr = Inr (b, tr')"
        "x = (b, d\<lparr>trackers := map_put ident (Some tr') (trackers d)\<rparr>)"
        by (rule track_doneE)
      have k: "tracker_for R period tr'" if "tracker_for R period tr" for period
        using that tracker_op_keeps[OF assms(1) t(2)] by (simp add: tracker_for_def)
      have "diag_ok R (d\<lparr>trackers := map_put ident (Some tr') (trackers d)\<rparr>)"
        using map_put_sorted[OF ok(1), of ident "Some tr'"] ok(2) entry_put(2)[OF ok(3) t(1) k]
        by (simp add: diag_ok_def)
      then show ?thesis using assms(3) Track Inr t(3) by simp
    qed
  next
    case (Report_Call now level stat)
    then show ?thesis using assms(2,3) by (auto simp: diagnostics_def Let_def diag_ok_def)
  qed (use assms(2,3) in \<open>auto simp: diag_init_def addDiagnosticsMessage_def diag_ok_def Let_def\<close>)
qed

lemma diag_calls_ok:
  "ring R \<Longrightarrow> diag_ok R d \<Longrightarrow> diag_calls early R S cs d = Inr d' \<Longrightarrow> diag_ok R d'"
  by (induction cs arbitrary: d) (auto simp: diag_calls_cons simp del: diag_calls.simps(2) intro: diag_call_ok)

text \<open>C21: Any sequence of calls on a new DiagnosticsInterface and on the trackers it hands out,
  calls that throw included, keeps it well formed as long as none has undefined behaviour
  (an int(10/period) out of range, a clock difference out of range, a null tracker
  dereferenced): both maps are sorted without a double key, a name has a period exactly when
  it has a tracker, which a name with the null entry of a failed addTimeTracker has not, and
  every tracker has the nominal period stored for its name and the window computed from that
  period.\<close>

theorem diag_well_formed:
  assumes "ring R" "diag_calls early R S cs diag_empty = Inr d"
  shows "diag_ok R d"
  using diag_calls_ok[OF assms(1) _ assms(2)] by (simp add: diag_ok_def diag_empty_def entry_ok_def)

definition demo_five :: "(nat \<times> b64 list) tracker" where
  "demo_five = demo_tracker\<lparr>nominal_time_span := b64_of_int 5\<rparr>"

lemma demo_make:
  "make_tracker list_ring (b64_of_int 5) = Inr demo_five"
  "make_tracker list_ring (b64_of_int (- 1)) = Inl (Uncaught ''set_capacity'')"
proof -
  have ten: "fp_of (b64_lit 10) = Fin 10" using b64_lit_int[of 10] by simp
  have r: "rnd 2 = 2" "rnd (- 10) = - 10" using rnd_of_int[of 2] rnd_of_int[of "-10"] by simp_all
  have "fp_of (b64_div (b64_lit 10) (b64_of_int 5)) = Fin (rnd (10 / 5))"
    using ten b64_of_int_val[of 5] by (intro b64_div_val fits64_small) simp_all
  then have five: "b64_to_int in_s32 (b64_div (b64_lit 10) (b64_of_int 5)) = Inr 2"
    using r by (simp add: b64_to_int_def rat_trunc_def in_s32_def)
  have "fp_of (b64_div (b64_lit 10) (b64_of_int (- 1))) = Fin (rnd (10 / - 1))"
    using ten b64_of_int_val[of "- 1"] by (intro b64_div_val fits64_small) simp_all
  then have neg: "b64_to_int in_s32 (b64_div (b64_lit 10) (b64_of_int (- 1))) = Inr (- 10)"
    using r by (simp add: b64_to_int_def rat_trunc_def in_s32_def)
  show "make_tracker list_ring (b64_of_int 5) = Inr demo_five"
    "make_tracker list_ring (b64_of_int (- 1)) = Inl (Uncaught ''set_capacity'')"
    using five neg
    by (simp_all add: make_tracker_def TimeSpanTracker_def circ_buffer_def list_ring_def
        demo_five_def demo_tracker_def)
qed

lemma demo_add:
  "addTimeTracker early list_ring ''loop'' (b64_of_int 5) (demo_diag ss) =
     (Inr (), (demo_diag ss)\<lparr>trackers := [(''loop'', Some demo_five)], periods := [(''loop'', b64_of_int 5)]\<rparr>)"
  by (simp add: addTimeTracker_def demo_make demo_diag_def)

text \<open>The first call throws and leaves a null pointer; the second stores a tracker.\<close>

lemma diag_well_formed_witness:
  "\<exists>d. diag_calls True list_ring status_mem
       [Add_Tracker ''bad'' (b64_of_int (- 1)), Add_Tracker ''loop'' (b64_of_int 5)] diag_empty = Inr d \<and>
     trackers d = [(''bad'', None), (''loop'', Some demo_five)] \<and> periods d = [(''loop'', b64_of_int 5)] \<and>
     diag_ok list_ring d"
proof -
  let ?d = "diag_empty\<lparr>trackers := [(''bad'', None), (''loop'', Some demo_five)], periods := [(''loop'', b64_of_int 5)]\<rparr>"
  have "diag_calls True list_ring status_mem
       [Add_Tracker ''bad'' (b64_of_int (- 1)), Add_Tracker ''loop'' (b64_of_int 5)] diag_empty = Inr ?d"
    by (simp add: addTimeTracker_def demo_make map_entry_def caught_def diag_empty_def)
  from diag_well_formed[OF list_ring.ring_axioms this] this show ?thesis by auto
qed

subsection \<open>A tracker that could not be made\<close>

lemma performance_null: "(ident, None) \<in> set ts \<Longrightarrow> performance_loop R S timer ts stat = Inl Null_Deref"
  by (induction R S timer ts stat rule: performance_loop.induct) (auto split: option.splits prod.splits)

lemma null_stays:
  assumes "map_of (trackers d) ident = Some None" "diag_call early R S c d = (r, d')" "\<forall>q. c \<noteq> Add_Tracker ident q"
  shows "map_of (trackers d') ident = Some None"
proof (cases c)
  case (Add_Tracker other period)
  then show ?thesis using assms
    by (auto simp: addTimeTracker_def map_of_put map_entry_def split: sum.splits if_splits)
next
  case (Track other op now)
  then show ?thesis using assms
    by (auto simp: track_def timeSpanStrakcer_def map_of_put res_simps split: sum.splits option.splits if_splits)
next
  case (Report_Call now level stat)
  then show ?thesis using assms by (auto simp: diagnostics_def Let_def)
qed (use assms in \<open>auto simp: diag_init_def addDiagnosticsMessage_def Let_def\<close>)

lemma null_stays_calls:
  assumes "map_of (trackers d) ident = Some None" "diag_calls early R S cs d = Inr d'"
    and "\<forall>q. Add_Tracker ident q \<notin> set cs"
  shows "map_of (trackers d') ident = Some None"
  using assms
proof (induction cs arbitrary: d)
  case (Cons c cs)
  from Cons.prems(2) obtain r d1 where c: "diag_call early R S c d = (r, d1)" "diag_calls early R S cs d1 = Inr d'"
    unfolding diag_calls_cons by blast
  have "\<forall>q. c \<noteq> Add_Tracker ident q" "\<forall>q. Add_Tracker ident q \<notin> set cs" using Cons.prems(3) by auto
  then show ?case using Cons.IH[OF null_stays[OF Cons.prems(1) c(1)] c(2)] by blast
qed simp

text \<open>C30: When addTimeTracker throws for a name that is not in the table (the constructor of the
  tracker refuses the window of a negative period, say) and time_span_tracker_[id] was
  evaluated first, the name keeps a null pointer through every sequence of calls, throwing
  ones included, that adds no tracker of that name and has no undefined behaviour: the look-
  up then gives a null pointer, and a call on the tracker or the performance report
  dereferences it.\<close>

theorem null_tracker:
  assumes "addTimeTracker True R ident period d = (Inl (Uncaught msg), d1)" "map_of (trackers d) ident = None"
    and "diag_calls True R S cs d1 = Inr d2" "\<forall>q. Add_Tracker ident q \<notin> set cs"
  shows "timeSpanStrakcer ident d2 = Inr None \<and> track R ident op clock d2 = Inl Null_Deref \<and>
    diagnosticsPerformance R S now stat d2 = Inl Null_Deref"
proof -
  have "map_of (trackers d1) ident = Some None"
    using assms(1,2) by (auto simp: addTimeTracker_def map_entry_def map_of_put split: sum.splits)
  from null_stays_calls[OF this assms(3,4)] have m: "map_of (trackers d2) ident = Some None" .
  from performance_null[OF map_of_SomeD[OF m]] m show ?thesis
    by (simp add: timeSpanStrakcer_def track_def diagnosticsPerformance_def)
qed

lemma null_tracker_witness:
  "\<exists>d2. diag_calls True list_ring status_mem
      [Add_Tracker ''bad'' (b64_of_int (- 1)), Add_Tracker ''loop'' (b64_of_int 5)] (demo_diag []) = Inr d2 \<and>
    timeSpanStrakcer ''bad'' d2 = Inr None \<and>
    diagnosticsPerformance list_ring status_mem ''12:00'' (demo_status 0 []) d2 = Inl Null_Deref"
proof -
  let ?d1 = "(demo_diag [])\<lparr>trackers := [(''bad'', None)]\<rparr>"
  let ?d2 = "?d1\<lparr>trackers := [(''bad'', None), (''loop'', Some demo_five)], periods := [(''loop'', b64_of_int 5)]\<rparr>"
  have a: "addTimeTracker True list_ring ''bad'' (b64_of_int (- 1)) (demo_diag []) = (Inl (Uncaught ''set_capacity''), ?d1)"
    by (simp add: addTimeTracker_def demo_make map_entry_def demo_diag_def)
  have b: "diag_calls True list_ring status_mem [Add_Tracker ''loop'' (b64_of_int 5)] ?d1 = Inr ?d2"
    by (simp add: addTimeTracker_def demo_make caught_def demo_diag_def)
  have m: "map_of (trackers (demo_diag [])) ''bad'' = None" by (simp add: demo_diag_def)
  from null_tracker[OF a m b] a b show ?thesis by (intro exI[of _ ?d2]) (simp add: caught_def)
qed

subsection \<open>Look-up\<close>

text \<open>After an addTimeTracker that does not throw the look-up of its name gives a fresh tracker
  with the period and no cycles, replacing one of the same name; the look-up of every other
  name and the queue are as before.\<close>

theorem tracker_lookup:
  assumes "ring R" "addTimeTracker early R ident period d = (Inr (), d')"
  shows "timeSpanStrakcer other d' =
      (if other = ident then timeSpanStrakcer ident d' else timeSpanStrakcer other d) \<and>
    (\<exists>tr. timeSpanStrakcer ident d' = Inr (Some tr) \<and> nominal_time_span tr = period \<and> mode tr = NONE \<and>
       getTotalCycles tr = 0 \<and> getMissedCycles tr = 0 \<and> cb_get R (buffer tr) = []) \<and>
    statuses d' = statuses d"
proof -
  obtain w tr where w: "TimeSpanTracker R w period = Inr tr"
    "d' = d\<lparr>trackers := map_put ident (Some tr) (trackers d), periods := map_put ident period (periods d)\<rparr>"
    using assms(2) by (rule add_tracker_doneE)
  note n = new_tracker[OF assms(1) w(1)]
  show ?thesis using w(2) n
    by (simp add: timeSpanStrakcer_def map_of_put getTotalCycles_def getMissedCycles_def cb_get_def)
qed

lemma tracker_lookup_witness:
  "\<exists>d' tr. addTimeTracker True list_ring ''loop'' (b64_of_int 5) (demo_diag []) = (Inr (), d') \<and>
     timeSpanStrakcer ''loop'' d' = Inr (Some tr) \<and> nominal_time_span tr = b64_of_int 5 \<and>
     timeSpanStrakcer ''other'' d' = Inl (Uncaught ''map::at'')"
  using tracker_lookup[OF list_ring.ring_axioms demo_add[of True], of "''other''" "[]"] demo_add[of True "[]"]
  by (auto simp: timeSpanStrakcer_def demo_diag_def)

subsection \<open>The performance report\<close>

text \<open>A run of calls on one tracker of the table is a run of the tracker.\<close>

definition track_calls :: "string \<Rightarrow> (track_op \<times> int) list \<Rightarrow> 's diag_op list" where
  "track_calls ident ops = map (\<lambda>(op, now). Track ident op now) ops"

lemma track_calls_run:
  assumes "tracker_run R ops tr = Inr (bs, tr')" "map_of (trackers d) ident = Some (Some tr)" "ops \<noteq> []"
  shows "diag_calls early R S (track_calls ident ops) d = Inr (d\<lparr>trackers := map_put ident (Some tr') (trackers d)\<rparr>)"
  using assms
proof (induction ops arbitrary: tr d bs)
  case (Cons x ops)
  obtain op now where x: "x = (op, now)" by force
  obtain b tr1 bs1 where r: "tracker_op R op now tr = Inr (b, tr1)" "tracker_run R ops tr1 = Inr (bs1, tr')"
    using Cons.prems(1) x by (auto simp: res_simps)
  define d1 where "d1 = d\<lparr>trackers := map_put ident (Some tr1) (trackers d)\<rparr>"
  have s: "diag_call early R S (Track ident op now) d = (Inr (), d1)"
    using r(1) Cons.prems(2) by (simp add: track_def timeSpanStrakcer_def d1_def)
  have m: "map_of (trackers d1) ident = Some (Some tr1)" by (simp add: d1_def map_of_put)
  show ?case
  proof (cases "ops = []")
    case True
    then show ?thesis using s r(2) x by (simp add: track_calls_def d1_def caught_def)
  next
    case False
    from Cons.IH[OF r(2) m False] s x map_put_put[of ident "Some tr'" "Some tr1" "trackers d"] show ?thesis
      by (simp add: track_calls_def d1_def caught_def)
  qed
qed simp

text \<open>Without a null pointer the report has one line for each tracker, in the order of the names.\<close>

definition report_lines :: "('b, b64) ring_lib \<Rightarrow> string \<Rightarrow> (string \<times> 'b tracker option) list \<Rightarrow> (string \<times> string) list" where
  "report_lines R timer ts = map (\<lambda>(ident, p). tracker_line R timer (ident, the p)) ts"

lemma performance_loop_lines:
  assumes "status_wrapper S" "\<forall>x\<in>set ts. snd x \<noteq> None"
  shows "\<exists>stat'. performance_loop R S timer ts stat = Inr stat' \<and>
    sw_values S stat' = sw_values S stat @ report_lines R timer ts \<and> sw_level S stat' = sw_level S stat"
  using assms(2)
proof (induction ts arbitrary: stat)
  case (Cons x ts)
  obtain ident tr where x: "x = (ident, Some tr)" using Cons.prems by (cases x) auto
  obtain k v where kv: "tracker_line R timer (ident, tr) = (k, v)" by force
  from Cons.IH[of "sw_add S k v stat"] Cons.prems x kv status_wrapper.add[OF assms(1)]
  show ?case by (auto simp: report_lines_def)
qed (simp add: report_lines_def)

lemma performance_lines:
  assumes "status_wrapper S" "\<forall>x\<in>set (trackers d). snd x \<noteq> None"
  shows "\<exists>stat'. diagnosticsPerformance R S now stat d = Inr stat' \<and>
    sw_values S stat' = sw_values S stat @ report_lines R (timer_id d) (trackers d) \<and> sw_level S stat' = OK"
  using performance_loop_lines[OF assms, of R "timer_id d" "sw_set_message S (''Cycle Time Statistics ['' @ now @ '']'')
      (sw_set_name S (name_id d) (sw_set_level S OK (sw_set_hardware_id S (hardware_id d) stat)))"]
  by (simp only: diagnosticsPerformance_def status_wrapper.set_level[OF assms(1)] status_wrapper.set_ids[OF assms(1)]
      status_wrapper.set_message[OF assms(1)])

lemma map_put_set: "x \<in> set (map_put k v m) \<Longrightarrow> x = (k, v) \<or> x \<in> set m"
  by (induction k v m rule: map_put.induct) (auto split: if_splits)

lemma tracker_line_counts:
  assumes "getMissedCycles tr = of_nat m" "getTotalCycles tr = of_nat n" "m < 2 ^ 64" "n < 2 ^ 64"
  shows "suffix (''Missed: '' @ string_of_nat m @ ''/'' @ string_of_nat n) (snd (tracker_line R t (ident, tr)))"
  using assms by (simp add: tracker_line_def unsigned_of_nat take_bit_nat_eq_self suffix_def)

lemma spans_of_length: "length (spans_of l ops) \<le> length ops"
  by (induction l ops rule: spans_of.induct) auto

text \<open>C14: The performance report after a tracker was added to a well-formed interface (which then
  has no null entry) and used in one mode has one line for each tracker, in the order of the
  names, and the line of this one ends with its missed and total cycles.\<close>

theorem performance_report:
  assumes "ring R" "status_wrapper S" "addTimeTracker early R ident period d = (Inr (), d1)" "diag_ok R d"
    and "\<forall>x\<in>set (trackers d1). snd x \<noteq> None"
    and "\<forall>x\<in>set ops. clock_ok (snd x)" "(\<forall>x\<in>set ops. fst x = Span) \<or> (\<forall>x\<in>set ops. fst x \<noteq> Span)"
    and "ops \<noteq> []" "length ops < 2 ^ 64"
  shows "\<exists>d2 stat' line. diag_calls early R S (track_calls ident ops) d1 = Inr d2 \<and>
    diagnosticsPerformance R S now stat d2 = Inr stat' \<and>
    sw_values S stat' = sw_values S stat @ report_lines R (timer_id d) (trackers d2) \<and>
    map fst (trackers d2) = map fst (trackers d1) \<and>
    (timer_id d @ '' '' @ ident @ '' [s]'', line) \<in> set (report_lines R (timer_id d) (trackers d2)) \<and>
    suffix (''Missed: '' @ string_of_nat (length (filter (\<lambda>t. late_span period (seconds t)) (spans_of 0 ops)))
      @ ''/'' @ string_of_nat (length (spans_of 0 ops))) line"
proof -
  obtain w tr where w: "TimeSpanTracker R w period = Inr tr"
    "d1 = d\<lparr>trackers := map_put ident (Some tr) (trackers d), periods := map_put ident period (periods d)\<rparr>"
    using assms(3) by (rule add_tracker_doneE)
  have m: "map_of (trackers d1) ident = Some (Some tr)" "sorted_wrt (<) (map fst (trackers d1))" "timer_id d1 = timer_id d"
    using w(2) assms(4) map_put_sorted[of "trackers d" ident "Some tr"] by (simp_all add: map_of_put diag_ok_def)
  obtain tr' where t: "tracker_run R ops tr = Inr (replicate (length ops) True, tr')"
    "cycles tr' = of_nat (length (spans_of 0 ops))"
    "missed_cycles tr' = of_nat (length (filter (\<lambda>d. late_span period (seconds d)) (spans_of 0 ops)))"
    using new_tracker_run[OF assms(1) w(1) assms(6,7)] by blast
  let ?d2 = "d1\<lparr>trackers := map_put ident (Some tr') (trackers d1)\<rparr>"
  have run: "diag_calls early R S (track_calls ident ops) d1 = Inr ?d2"
    by (rule track_calls_run[OF t(1) m(1) assms(8)])
  have "\<forall>x\<in>set (trackers ?d2). snd x \<noteq> None" using assms(5) by (auto dest!: map_put_set)
  from performance_lines[OF assms(2) this, of R now stat] obtain stat' where
    p: "diagnosticsPerformance R S now stat ?d2 = Inr stat'"
    "sw_values S stat' = sw_values S stat @ report_lines R (timer_id d) (trackers ?d2)"
    using m(3) by auto
  have "length (spans_of 0 ops) < 2 ^ 64" using spans_of_length[of 0 ops] assms(9) by linarith
  then have suf: "suffix (''Missed: '' @ string_of_nat (length (filter (\<lambda>t. late_span period (seconds t)) (spans_of 0 ops)))
      @ ''/'' @ string_of_nat (length (spans_of 0 ops))) (snd (tracker_line R (timer_id d) (ident, tr')))"
    using t(2,3) le_less_trans[OF length_filter_le]
    by (intro tracker_line_counts) (auto simp: getMissedCycles_def getTotalCycles_def)
  have "map_of (trackers ?d2) ident = Some (Some tr')" by (simp add: map_of_put)
  then have mem: "(ident, Some tr') \<in> set (trackers ?d2)" by (rule map_of_SomeD)
  have "tracker_line R (timer_id d) (ident, tr')
      = (timer_id d @ '' '' @ ident @ '' [s]'', snd (tracker_line R (timer_id d) (ident, tr')))"
    by (simp add: tracker_line_def)
  then have line: "(timer_id d @ '' '' @ ident @ '' [s]'', snd (tracker_line R (timer_id d) (ident, tr')))
      \<in> set (report_lines R (timer_id d) (trackers ?d2))"
    using imageI[OF mem, of "\<lambda>(ident, p). tracker_line R (timer_id d) (ident, the p)"]
    unfolding report_lines_def set_map by simp
  have keys: "map fst (trackers ?d2) = map fst (trackers d1)" using map_put_same_keys[OF m(1,2)] by simp
  show ?thesis using run p keys line suf by blast
qed

lemma performance_report_witness:
  "\<exists>d2 stat' line. diag_calls True list_ring status_mem (track_calls ''loop'' [(Tick, 10), (Tock, 30), (Tick, 50), (Tock, 80)])
       ((demo_diag [])\<lparr>trackers := [(''loop'', Some demo_five)], periods := [(''loop'', b64_of_int 5)]\<rparr>) = Inr d2 \<and>
     diagnosticsPerformance list_ring status_mem ''12:00'' (demo_status 0 []) d2 = Inr stat' \<and>
     (''t loop [s]'', line) \<in> set (sw_values status_mem stat') \<and> suffix ''/2'' line"
proof -
  let ?ops = "[(Tick, 10), (Tock, 30), (Tick, 50), (Tock, 80 :: int)]"
  let ?d1 = "(demo_diag [])\<lparr>trackers := [(''loop'', Some demo_five)], periods := [(''loop'', b64_of_int 5)]\<rparr>"
  have ok: "diag_ok list_ring (demo_diag [])" by (simp add: diag_ok_def entry_ok_def demo_diag_def)
  have nn: "\<forall>x\<in>set (trackers ?d1). snd x \<noteq> None" by simp
  have sp: "spans_of 0 ?ops = [20, 30]" by simp
  have ck: "\<forall>x\<in>set ?ops. clock_ok (snd x)" by (simp add: clock_ok_def)
  have un: "(\<forall>x\<in>set ?ops. fst x = Span) \<or> (\<forall>x\<in>set ?ops. fst x \<noteq> Span)" by simp
  have ne: "?ops \<noteq> []" and ln: "length ?ops < 2 ^ 64" and len: "length [20, 30 :: int] = 2" by simp_all
  have two: "string_of_nat 2 = ''2''" by (subst string_of_nat.simps) (simp add: char_of_def bit_0)
  have tm: "timer_id (demo_diag [] :: (nat \<times> b64 list) diagnostics_interface) = ''t''"
    by (simp add: demo_diag_def)
  have suf: "suffix (xs @ ''/2'') line \<Longrightarrow> suffix ''/2'' line" for xs line :: string
    by (auto simp: suffix_def)
  obtain d2 stat' line where r: "diag_calls True list_ring status_mem (track_calls ''loop'' ?ops) ?d1 = Inr d2"
    "diagnosticsPerformance list_ring status_mem ''12:00'' (demo_status 0 []) d2 = Inr stat'"
    "sw_values status_mem stat'
       = sw_values status_mem (demo_status 0 []) @ report_lines list_ring ''t'' (trackers d2)"
    "(''t'' @ '' '' @ ''loop'' @ '' [s]'', line) \<in> set (report_lines list_ring ''t'' (trackers d2))"
    "suffix (''Missed: '' @ string_of_nat (length (filter (\<lambda>t. late_span (b64_of_int 5) (seconds t)) [20, 30]))
       @ ''/'' @ string_of_nat 2) line"
    using performance_report[OF list_ring.ring_axioms status_mem.status_wrapper_axioms demo_add[of True] ok nn ck un ne ln,
      of "''12:00''" "demo_status 0 []"]
    unfolding sp tm len by blast
  from r(5) have "suffix ''/2'' line" unfolding two
    using suf[of "''Missed: '' @ string_of_nat (length (filter (\<lambda>t. late_span (b64_of_int 5) (seconds t)) [20, 30]))"]
    by simp
  with r(1-4) show ?thesis by (intro exI[of _ d2] exI[of _ stat'] exI[of _ line]) simp
qed

end
