(* ===== verification/Task_Pool.thy ===== *)
theory Task_Pool
  imports Runs "HOL-Library.Multiset" "HOL-Library.Sublist"
begin

text \<open>
  The thread pool \<open>tasks\<close> of \<open>include/realtime_utilities/parallel_computing.h\<close> as a step
  relation. The queue holds tasks and, as \<open>None\<close>, the empty tasks that tell a worker to
  stop. A step is what happens under one lock of the mutex, a notification (which the code
  sends after it has unlocked, so it may come late), or the run of a task outside the lock.
\<close>

subsection \<open>State and steps\<close>

datatype 'a worker = Looking | Waiting | Running 'a | Returned

text \<open>
  \<open>owed\<close> and \<open>owed_all\<close> count the calls of \<open>notify_one\<close> and \<open>notify_all\<close> still to come;
  \<open>started\<close> and \<open>executed\<close> record the tasks taken from the queue and the tasks run to their
  end. \<open>workers\<close> has one entry for each future in \<open>finished_\<close>.
\<close>

record 'a pool =
  work :: "'a option list"
  workers :: "'a worker list"
  owed :: nat
  owed_all :: nat
  started :: "'a list"
  executed :: "'a list"

definition pool_empty :: "'a pool" where
  "pool_empty = \<lparr>work = [], workers = [], owed = 0, owed_all = 0, started = [], executed = []\<rparr>"

datatype 'a pool_event =
    Queue 'a | Start nat | Cancel_Pending | Finish | Notify_One | Notify_All
  | Take nat | Wait nat | Ran nat | Spurious nat

text \<open>
  \<open>queue\<close>, \<open>cancel_pending\<close> and \<open>finish\<close> under the lock; \<open>start\<close>, which takes no lock, is
  modelled as a call that no other call of the owner overlaps.
\<close>

definition queue :: "'a \<Rightarrow> 'a pool \<Rightarrow> 'a pool" where
  "queue a s = s\<lparr>work := work s @ [Some a], owed := owed s + 1\<rparr>"

definition start :: "nat \<Rightarrow> 'a pool \<Rightarrow> 'a pool" where
  "start n s = s\<lparr>workers := workers s @ replicate n Looking\<rparr>"

definition cancel_pending :: "'a pool \<Rightarrow> 'a pool" where
  "cancel_pending s = s\<lparr>work := []\<rparr>"

definition finish :: "'a pool \<Rightarrow> 'a pool" where
  "finish s = s\<lparr>work := work s @ replicate (length (workers s)) None, owed_all := owed_all s + 1\<rparr>"

definition abort :: "'a pool \<Rightarrow> 'a pool" where
  "abort s = finish (cancel_pending s)"

text \<open>The destructor finishes; the futures it then destroys wait for their threads.\<close>

definition tasks_destroy :: "'a pool \<Rightarrow> 'a pool" where
  "tasks_destroy s = finish s"

text \<open>One round of \<open>thread_task\<close> for worker \<open>i\<close>: take the front of the queue, or wait.\<close>

definition take_task :: "nat \<Rightarrow> 'a pool \<Rightarrow> 'a pool" where
  "take_task i s = (case work s of
       [] \<Rightarrow> s
     | Some a # r \<Rightarrow> s\<lparr>work := r, workers := (workers s)[i := Running a], started := started s @ [a]\<rparr>
     | None # r \<Rightarrow> s\<lparr>work := r, workers := (workers s)[i := Returned]\<rparr>)"

definition set_worker :: "nat \<Rightarrow> 'a worker \<Rightarrow> 'a pool \<Rightarrow> 'a pool" where
  "set_worker i w s = s\<lparr>workers := (workers s)[i := w]\<rparr>"

definition wake_all :: "'a worker list \<Rightarrow> 'a worker list" where
  "wake_all ws = map (\<lambda>w. if w = Waiting then Looking else w) ws"

definition is_worker :: "nat \<Rightarrow> 'a worker \<Rightarrow> 'a pool \<Rightarrow> bool" where
  "is_worker i w s \<longleftrightarrow> i < length (workers s) \<and> workers s ! i = w"

inductive pool_step :: "'a pool \<Rightarrow> 'a pool_event \<Rightarrow> 'a pool \<Rightarrow> bool" where
  queue: "pool_step s (Queue a) (queue a s)"
| start: "pool_step s (Start n) (start n s)"
| cancel: "pool_step s Cancel_Pending (cancel_pending s)"
| finish: "pool_step s Finish (finish s)"
| notify: "0 < owed s \<Longrightarrow> is_worker i Waiting s \<Longrightarrow>
    pool_step s Notify_One (set_worker i Looking (s\<lparr>owed := owed s - 1\<rparr>))"
| notify_nobody: "0 < owed s \<Longrightarrow> Waiting \<notin> set (workers s) \<Longrightarrow>
    pool_step s Notify_One (s\<lparr>owed := owed s - 1\<rparr>)"
| notify_all: "0 < owed_all s \<Longrightarrow>
    pool_step s Notify_All (s\<lparr>owed_all := owed_all s - 1, workers := wake_all (workers s)\<rparr>)"
| take: "is_worker i Looking s \<Longrightarrow> work s \<noteq> [] \<Longrightarrow> pool_step s (Take i) (take_task i s)"
| wait: "is_worker i Looking s \<Longrightarrow> work s = [] \<Longrightarrow> pool_step s (Wait i) (set_worker i Waiting s)"
| ran: "is_worker i (Running a) s \<Longrightarrow>
    pool_step s (Ran i) (set_worker i Looking (s\<lparr>executed := executed s @ [a]\<rparr>))"
| spurious: "is_worker i Waiting s \<Longrightarrow> pool_step s (Spurious i) (set_worker i Looking s)"

inductive_cases pool_stepE: "pool_step s e s'"

abbreviation pool_run :: "'a pool \<Rightarrow> 'a pool_event list \<Rightarrow> 'a pool \<Rightarrow> bool" where
  "pool_run \<equiv> run pool_step"

lemmas pool_nil = run_nil[of pool_step]
lemmas pool_snoc = run_snoc[of pool_step]
lemmas pool_runI = runI[of pool_step]

subsection \<open>Order of the tasks\<close>

fun queued :: "'a pool_event \<Rightarrow> 'a list" where
  "queued (Queue a) = [a]"
| "queued _ = []"

definition tasks_in :: "'a option list \<Rightarrow> 'a list" where
  "tasks_in w = List.map_filter (\<lambda>x. x) w"

lemma tasks_in_simps [simp]:
  "tasks_in [] = []" "tasks_in (Some a # w) = a # tasks_in w" "tasks_in (None # w) = tasks_in w"
  "tasks_in (v @ w) = tasks_in v @ tasks_in w"
  by (induction v) (auto simp: tasks_in_def map_filter_simps split: option.splits)

lemma tasks_in_sentinels [simp]: "tasks_in (replicate n None) = []"
  by (induction n) simp_all

lemma step_order:
  assumes "pool_step s e s'"
  shows "started s' @ tasks_in (work s') =
    (if e = Cancel_Pending then started s else started s @ tasks_in (work s) @ queued e)"
  using assms
  by (cases rule: pool_step.cases)
    (auto simp: queue_def start_def cancel_pending_def finish_def set_worker_def take_task_def
      split: list.splits option.splits)

lemma run_order:
  "pool_run s0 es s \<Longrightarrow> subseq (started s @ tasks_in (work s))
     (started s0 @ tasks_in (work s0) @ concat (map queued es)) \<and>
   (Cancel_Pending \<notin> set es \<longrightarrow>
     started s @ tasks_in (work s) = started s0 @ tasks_in (work s0) @ concat (map queued es))"
proof (induction rule: run.induct)
  case (run_snoc es s1 e s2)
  let ?Q = "started s0 @ tasks_in (work s0) @ concat (map queued es)"
  have ih: "subseq (started s1 @ tasks_in (work s1)) ?Q"
    "Cancel_Pending \<notin> set es \<Longrightarrow> started s1 @ tasks_in (work s1) = ?Q" using run_snoc.IH by auto
  show ?case
  proof (cases "e = Cancel_Pending")
    case True
    have "subseq (started s1) (started s1 @ tasks_in (work s1))" by (rule prefix_imp_subseq) simp
    then have "subseq (started s1) ?Q" using ih(1) subseq_order.trans by blast
    then show ?thesis using step_order[OF run_snoc.hyps(2)] True by simp
  next
    case False
    have q: "?Q @ queued e = started s0 @ tasks_in (work s0) @ concat (map queued (es @ [e]))" by simp
    have "subseq ((started s1 @ tasks_in (work s1)) @ queued e) (?Q @ queued e)"
      using ih(1) by (simp only: subseq_append)
    then show ?thesis using step_order[OF run_snoc.hyps(2)] False ih(2) q by auto
  qed
qed simp

text \<open>C12: Tasks start in the order they were queued, each at most once, in every interleaving;
  without cancel_pending the started and the pending tasks together are exactly the queued
  ones.\<close>

theorem pool_order:
  assumes "pool_run pool_empty es s"
  shows "subseq (started s) (concat (map queued es)) \<and>
    (Cancel_Pending \<notin> set es \<longrightarrow> started s @ tasks_in (work s) = concat (map queued es))"
proof -
  have "subseq (started s @ tasks_in (work s)) (concat (map queued es))"
    using run_order[OF assms] by (simp add: pool_empty_def)
  moreover have "subseq (started s) (started s @ tasks_in (work s))" by (rule prefix_imp_subseq) simp
  ultimately have "subseq (started s) (concat (map queued es))" using subseq_order.trans by blast
  then show ?thesis using run_order[OF assms] by (simp add: pool_empty_def)
qed

lemma demo_pool_run:
  "pool_run pool_empty [Start 1, Queue (7 :: nat), Take 0]
     \<lparr>work = [], workers = [Running 7], owed = 1, owed_all = 0, started = [7], executed = []\<rparr>"
proof -
  let ?s1 = "\<lparr>work = [], workers = [Looking], owed = 0, owed_all = 0, started = [], executed = []\<rparr> :: nat pool"
  let ?s2 = "\<lparr>work = [Some 7], workers = [Looking], owed = 1, owed_all = 0, started = [], executed = []\<rparr> :: nat pool"
  have "pool_run pool_empty [Start 1] ?s1"
    by (rule pool_runI[OF pool_nil]) (use pool_step.start[of pool_empty 1] in \<open>simp_all add: start_def pool_empty_def\<close>)
  then have "pool_run pool_empty [Start 1, Queue 7] ?s2"
    by (rule pool_runI) (use pool_step.queue[of ?s1 7] in \<open>simp_all add: queue_def\<close>)
  then show ?thesis
    by (rule pool_runI) (use pool_step.take[of 0 ?s2] in \<open>simp_all add: take_task_def is_worker_def\<close>)
qed

lemma pool_order_witness: "subseq [7] (concat (map queued [Start 1, Queue (7 :: nat), Take 0]))"
  using pool_order[OF demo_pool_run] by simp

subsection \<open>No worker is forgotten\<close>

text \<open>
  While something is in the queue and a worker waits, somebody will look again: a
  notification is still to come, or another worker is looking or running. After the stop
  messages of \<open>finish\<close> nobody waits at all until \<open>notify_all\<close> has come.
\<close>

definition active :: "'a pool \<Rightarrow> bool" where
  "active s \<longleftrightarrow> (\<exists>w\<in>set (workers s). w = Looking \<or> (\<exists>a. w = Running a))"

definition watched :: "'a pool \<Rightarrow> bool" where
  "watched s \<longleftrightarrow> Waiting \<in> set (workers s) \<longrightarrow>
     (work s \<noteq> [] \<longrightarrow> 0 < owed s \<or> 0 < owed_all s \<or> active s) \<and>
     (None \<in> set (work s) \<longrightarrow> 0 < owed_all s)"

lemma is_worker_set: "is_worker i w s \<Longrightarrow> w \<in> set (workers s)"
  by (auto simp: is_worker_def)

lemma set_worker_mem: "is_worker i v s \<Longrightarrow> w \<in> set ((workers s)[i := w])"
  by (auto simp: is_worker_def set_update_memI)

lemma waiting_update: "Waiting \<in> set ((workers s)[i := w]) \<Longrightarrow> w \<noteq> Waiting \<Longrightarrow> Waiting \<in> set (workers s)"
  using set_update_subset_insert[of "workers s" i w] by blast

lemma activeI: "Looking \<in> set (workers s) \<Longrightarrow> active s" "Running a \<in> set (workers s) \<Longrightarrow> active s"
  by (auto simp: active_def)

lemma worker_cases: "w \<noteq> Returned \<Longrightarrow> w = Waiting \<or> w = Looking \<or> (\<exists>a. w = Running a)"
  by (cases w) auto

lemma wake_all_none: "Waiting \<notin> set (wake_all ws)"
  by (auto simp: wake_all_def)

text \<open>A step that leaves some worker looking or running, and adds no stop message, is safe.\<close>

lemma watched_active:
  assumes "watched s" "active s'" "Waiting \<in> set (workers s') \<Longrightarrow> Waiting \<in> set (workers s)"
    and "None \<in> set (work s') \<Longrightarrow> None \<in> set (work s)" "owed_all s' = owed_all s"
  shows "watched s'"
  using assms by (auto simp: watched_def)

lemma step_watched:
  assumes "pool_step s e s'" "watched s"
  shows "watched s'"
  using assms(1)
proof (cases rule: pool_step.cases)
  case (start n)
  then show ?thesis using assms(2) by (cases n) (auto simp: watched_def active_def start_def)
next
  case (notify i)
  have "Waiting \<in> set (workers s)" by (rule is_worker_set[OF notify(4)])
  moreover have "active s'" using set_worker_mem[OF notify(4), of Looking] notify
    by (intro activeI(1)) (simp add: set_worker_def)
  ultimately show ?thesis using notify by (intro watched_active[OF assms(2)]) (simp_all add: set_worker_def)
next
  case (take i)
  show ?thesis
  proof (cases "hd (work s)")
    case None
    then obtain r where r: "work s = None # r" using take(4) by (cases "work s") auto
    have "Waiting \<in> set (workers s)" if "Waiting \<in> set (workers s')"
      using that r take(2) waiting_update[of s i Returned] by (simp add: take_task_def)
    then show ?thesis using assms(2) r take(2) by (auto simp: watched_def take_task_def)
  next
    case (Some a)
    then obtain r where r: "work s = Some a # r" using take(4) by (cases "work s") auto
    have "active s'" using set_worker_mem[OF take(3), of "Running a"] take(2) r
      by (intro activeI(2)) (simp add: take_task_def)
    then show ?thesis using take(2) r waiting_update[of s i "Running a"]
      by (intro watched_active[OF assms(2)]) (auto simp: take_task_def)
  qed
next
  case (ran i a)
  have "active s'" using set_worker_mem[OF ran(3), of Looking] ran(2)
    by (intro activeI(1)) (simp add: set_worker_def)
  then show ?thesis using ran(2) waiting_update[of s i Looking]
    by (intro watched_active[OF assms(2)]) (auto simp: set_worker_def)
next
  case (spurious i)
  have "active s'" using set_worker_mem[OF spurious(3), of Looking] spurious(2)
    by (intro activeI(1)) (simp add: set_worker_def)
  then show ?thesis using spurious(2) waiting_update[of s i Looking]
    by (intro watched_active[OF assms(2)]) (auto simp: set_worker_def)
qed (use assms(2) wake_all_none in \<open>auto simp: watched_def active_def queue_def cancel_pending_def finish_def
      set_worker_def is_worker_def\<close>)

interpretation watched: kept pool_step "\<lambda>_. True" watched
  by unfold_locales (rule step_watched)

text \<open>The steps the pool takes by itself.\<close>

fun internal :: "'a pool_event \<Rightarrow> bool" where
  "internal (Take _) = True"
| "internal (Wait _) = True"
| "internal (Ran _) = True"
| "internal Notify_One = True"
| "internal Notify_All = True"
| "internal _ = False"

lemma owed_step: "0 < owed s \<Longrightarrow> \<exists>s'. pool_step s Notify_One s'"
proof (cases "Waiting \<in> set (workers s)")
  case True
  then obtain i where "is_worker i Waiting s" by (auto simp: in_set_conv_nth is_worker_def)
  then show "0 < owed s \<Longrightarrow> ?thesis" using notify by blast
qed (use notify_nobody in blast)

lemma active_step:
  assumes "active s" shows "\<exists>e s'. internal e \<and> pool_step s e s' \<and> (work s \<noteq> [] \<longrightarrow> (\<exists>i. e = Take i \<or> e = Ran i))"
proof -
  obtain w where w: "w \<in> set (workers s)" "w = Looking \<or> (\<exists>a. w = Running a)"
    using assms by (auto simp: active_def)
  then obtain i where "is_worker i w s" by (auto simp: in_set_conv_nth is_worker_def)
  with w(2) have "is_worker i Looking s \<or> (\<exists>a. is_worker i (Running a) s)" by blast
  then show ?thesis
  proof
    assume l: "is_worker i Looking s"
    show ?thesis
    proof (cases "work s = []")
      case True
      then show ?thesis using wait[OF l] by (metis internal.simps(2))
    next
      case False
      then show ?thesis using take[OF l] by (metis internal.simps(1))
    qed
  next
    assume "\<exists>a. is_worker i (Running a) s"
    then show ?thesis using ran by (metis internal.simps(3))
  qed
qed

text \<open>C25: No wake-up is lost: while the queue holds something and some thread has not returned,
  the pool can take a step of its own, which takes a task, ends one or delivers a
  notification.\<close>

theorem pool_progress:
  assumes "pool_run pool_empty es s" "work s \<noteq> []" "w \<in> set (workers s)" "w \<noteq> Returned"
  shows "\<exists>e s'. internal e \<and> pool_step s e s' \<and> (e \<in> {Notify_One, Notify_All} \<or> (\<exists>i. e = Take i \<or> e = Ran i))"
proof -
  have "watched s" using watched.run_keeps[OF assms(1)] by (simp add: watched_def pool_empty_def)
  moreover have "active s \<or> Waiting \<in> set (workers s)" 
    using assms(3) worker_cases[OF assms(4)] activeI by metis
  ultimately consider "active s" | "0 < owed s" | "0 < owed_all s" using assms(2) by (auto simp: watched_def)
  then show ?thesis
  proof cases
    case 1
    then show ?thesis using active_step[of s] assms(2) by metis
  next
    case 2
    then show ?thesis using owed_step[of s] internal.simps(4) by blast
  next
    case 3
    then show ?thesis using pool_step.notify_all[of s] internal.simps(5) by blast
  qed
qed

lemma pool_progress_witness:
  "\<exists>e s'. internal e \<and> pool_step \<lparr>work = [Some (7 :: nat)], workers = [Looking], owed = 1, owed_all = 0,
      started = [], executed = []\<rparr> e s'"
proof -
  let ?s = "\<lparr>work = [Some (7 :: nat)], workers = [Looking], owed = 1, owed_all = 0, started = [], executed = []\<rparr>"
  let ?s1 = "\<lparr>work = [], workers = [Looking], owed = 0, owed_all = 0, started = [], executed = []\<rparr> :: nat pool"
  have "pool_run pool_empty [Start 1] ?s1"
    by (rule pool_runI[OF pool_nil]) (use pool_step.start[of pool_empty 1] in \<open>simp_all add: start_def pool_empty_def\<close>)
  then have "pool_run pool_empty [Start 1, Queue 7] ?s"
    by (rule pool_runI) (use pool_step.queue[of ?s1 7] in \<open>simp_all add: queue_def\<close>)
  from pool_progress[OF this, of Looking] show ?thesis by auto
qed

subsection \<open>The end of the pool\<close>

text \<open>A number that every step of the pool by itself makes smaller.\<close>

fun worker_cost :: "'a worker \<Rightarrow> nat" where
  "worker_cost Looking = 1"
| "worker_cost (Running _) = 2"
| "worker_cost Waiting = 0"
| "worker_cost Returned = 0"

text \<open>\<open>c\<close> is what a pending \<open>notify_all\<close> counts for: more than it can wake.\<close>

definition cost_with :: "nat \<Rightarrow> 'a pool \<Rightarrow> nat" where
  "cost_with c s = 2 * length (work s) + sum_list (map worker_cost (workers s)) + 2 * owed s + c * owed_all s"

definition pool_cost :: "'a pool \<Rightarrow> nat" where
  "pool_cost s = cost_with (length (workers s) + 1) s"

lemma cost_update:
  assumes "is_worker i v s"
  shows "sum_list (map worker_cost ((workers s)[i := w])) + worker_cost v
    = sum_list (map worker_cost (workers s)) + worker_cost w"
proof -
  have "sum_list ((map worker_cost (workers s))[i := worker_cost w]) + map worker_cost (workers s) ! i
      = sum_list (map worker_cost (workers s)) + worker_cost w"
    using assms elem_le_sum_list[of i "map worker_cost (workers s)"]
    by (subst sum_list_update) (auto simp: is_worker_def)
  then show ?thesis using assms by (simp add: map_update is_worker_def)
qed

lemma wake_cost: "sum_list (map worker_cost (wake_all ws)) \<le> sum_list (map worker_cost ws) + length ws"
  by (induction ws) (auto simp: wake_all_def)

lemma internal_cost_with:
  assumes "pool_step s e s'" "internal e" "length (workers s) < c"
  shows "cost_with c s' < cost_with c s"
  using assms(1)
proof (cases rule: pool_step.cases)
  case (notify i)
  then show ?thesis using cost_update[OF notify(4), of Looking] by (simp add: cost_with_def set_worker_def)
next
  case notify_all
  then obtain k where "owed_all s = Suc k" by (cases "owed_all s") auto
  then show ?thesis using notify_all wake_cost[of "workers s"] assms(3)
    by (simp add: cost_with_def wake_all_def)
next
  case (take i)
  show ?thesis
  proof (cases "hd (work s)")
    case None
    then obtain r where "work s = None # r" using take(4) by (cases "work s") auto
    then show ?thesis using take(2) cost_update[OF take(3), of Returned]
      by (simp add: cost_with_def take_task_def)
  next
    case (Some a)
    then obtain r where "work s = Some a # r" using take(4) by (cases "work s") auto
    then show ?thesis using take(2) cost_update[OF take(3), of "Running a"]
      by (simp add: cost_with_def take_task_def)
  qed
next
  case (wait i)
  then show ?thesis using cost_update[OF wait(3), of Waiting] by (simp add: cost_with_def set_worker_def)
next
  case (ran i a)
  then show ?thesis using cost_update[OF ran(3), of Looking] by (simp add: cost_with_def set_worker_def)
qed (use assms(2) in \<open>auto simp: cost_with_def\<close>)

text \<open>A condition variable may wake a waiting thread on its own: one more look at the queue.\<close>

fun is_spurious :: "'a pool_event \<Rightarrow> bool" where
  "is_spurious (Spurious _) = True"
| "is_spurious _ = False"

lemma spurious_cost_with: "pool_step s e s' \<Longrightarrow> is_spurious e \<Longrightarrow> cost_with c s' \<le> cost_with c s + 1"
  by (cases rule: pool_step.cases) (use cost_update in \<open>force simp: cost_with_def set_worker_def\<close>)+

lemma own_step_length:
  "pool_step s e s' \<Longrightarrow> is_spurious e \<or> internal e \<Longrightarrow> length (workers s') = length (workers s)"
  by (cases rule: pool_step.cases)
    (auto simp: set_worker_def take_task_def wake_all_def split: list.splits option.splits)

interpretation pool_waste: wasteful pool_step is_spurious internal "\<lambda>_. True" pool_cost
proof unfold_locales
  fix s s' :: "'a pool" and e
  assume step: "pool_step s e s'"
  show "pool_cost s' < pool_cost s" if "internal e"
    using internal_cost_with[OF step that, of "length (workers s) + 1"] own_step_length[OF step] that
    by (simp add: pool_cost_def)
  show "pool_cost s' \<le> pool_cost s + 1" if "is_spurious e"
    using spurious_cost_with[OF step that, of "length (workers s) + 1"] own_step_length[OF step] that
    by (simp add: pool_cost_def)
qed simp

text \<open>The stop messages taken and to be taken, and the tasks being run.\<close>

definition stops :: "'a pool \<Rightarrow> nat" where
  "stops s = count_list (work s) None + count_list (workers s) Returned"

definition running :: "'a worker list \<Rightarrow> 'a list" where
  "running ws = concat (map (\<lambda>w. case w of Running a \<Rightarrow> [a] | _ \<Rightarrow> []) ws)"

lemma list_split_at: "is_worker i v s \<Longrightarrow> \<exists>xs ys. workers s = xs @ v # ys \<and> length xs = i"
  by (rule exI[of _ "take i (workers s)"], rule exI[of _ "drop (Suc i) (workers s)"])
    (simp add: is_worker_def id_take_nth_drop[symmetric], metis id_take_nth_drop)

lemma update_split: "length xs = i \<Longrightarrow> (xs @ v # ys)[i := w] = xs @ w # ys"
  by (simp add: list_update_append)

lemma running_simps [simp]:
  "running [] = []" "running (xs @ ys) = running xs @ running ys" "running (Running a # ys) = a # running ys"
  "running (Looking # ys) = running ys" "running (Waiting # ys) = running ys" "running (Returned # ys) = running ys"
  by (simp_all add: running_def)

lemma running_none [simp]: "running (replicate n Looking) = []" "running (wake_all ws) = running ws"
proof -
  show "running (replicate n Looking) = []" by (induction n) simp_all
  show "running (wake_all ws) = running ws"
  proof (induction ws)
    case (Cons w ws)
    then show ?case by (cases w) (simp_all add: wake_all_def)
  qed (simp add: wake_all_def)
qed

lemma wake_returned: "count_list (wake_all ws) Returned = count_list ws Returned" "length (wake_all ws) = length ws"
  by (induction ws) (auto simp: wake_all_def)

lemma step_running:
  assumes "pool_step s e s'" "mset (executed s) + mset (running (workers s)) = mset (started s)"
  shows "mset (executed s') + mset (running (workers s')) = mset (started s')"
  using assms(1)
proof (cases rule: pool_step.cases)
  case (notify i)
  then show ?thesis using assms(2) list_split_at[OF notify(4)] by (auto simp: set_worker_def update_split)
next
  case (take i)
  then show ?thesis using assms(2) list_split_at[OF take(3)]
    by (auto simp: take_task_def update_split split: list.splits option.splits)
next
  case (wait i)
  then show ?thesis using assms(2) list_split_at[OF wait(3)] by (auto simp: set_worker_def update_split)
next
  case (ran i a)
  then show ?thesis using assms(2) list_split_at[OF ran(3)] by (auto simp: set_worker_def update_split)
next
  case (spurious i)
  then show ?thesis using assms(2) list_split_at[OF spurious(3)] by (auto simp: set_worker_def update_split)
qed (use assms(2) in \<open>auto simp: queue_def start_def cancel_pending_def finish_def\<close>)

interpretation running: kept pool_step "\<lambda>_. True"
  "\<lambda>s. mset (executed s) + mset (running (workers s)) = mset (started s)"
  by unfold_locales (rule step_running)

lemma internal_stops:
  assumes "pool_step s e s'" "is_spurious e \<or> internal e"
  shows "stops s' = stops s \<and> length (workers s') = length (workers s) \<and> suffix (work s') (work s)"
  using assms(1)
proof (cases rule: pool_step.cases)
  case (notify i)
  then show ?thesis using list_split_at[OF notify(4)] by (auto simp: stops_def set_worker_def update_split)
next
  case notify_all
  then show ?thesis by (simp add: stops_def wake_returned)
next
  case (take i)
  then show ?thesis using list_split_at[OF take(3)]
    by (auto simp: stops_def take_task_def update_split suffix_Cons split: list.splits option.splits)
next
  case (wait i)
  then show ?thesis using list_split_at[OF wait(3)] by (auto simp: stops_def set_worker_def update_split)
next
  case (ran i a)
  then show ?thesis using list_split_at[OF ran(3)] by (auto simp: stops_def set_worker_def update_split)
next
  case (spurious i)
  then show ?thesis using list_split_at[OF spurious(3)] by (auto simp: stops_def set_worker_def update_split)
qed (use assms(2) in \<open>auto simp: stops_def\<close>)

interpretation stops: kept pool_step "\<lambda>e. is_spurious e \<or> internal e"
  "\<lambda>s. stops s = k \<and> length (workers s) = n \<and> suffix (work s) w" for k n w
  by unfold_locales (use internal_stops suffix_order.trans in fastforce)

lemma internal_run_stops:
  "pool_run s0 es s \<Longrightarrow> \<forall>e\<in>set es. is_spurious e \<or> internal e \<Longrightarrow>
     stops s = stops s0 \<and> length (workers s) = length (workers s0) \<and> suffix (work s) (work s0)"
  by (rule stops.run_keeps) auto

lemma internal_order:
  assumes "pool_run s0 es s" "\<forall>e\<in>set es. is_spurious e \<or> internal e"
  shows "started s @ tasks_in (work s) = started s0 @ tasks_in (work s0)"
proof -
  have "concat (map queued es) = []" "Cancel_Pending \<notin> set es"
    using assms(2) by (auto elim!: internal.elims(2) is_spurious.elims(2) dest!: bspec)
  then show ?thesis using run_order[OF assms(1)] by simp
qed

text \<open>
  What a run without \<open>cancel_pending\<close> has come to: the threads started, the stop messages sent,
  and whether a finish that sent some came after the last queued task.
\<close>

fun tally :: "'a pool_event \<Rightarrow> nat \<times> nat \<times> bool \<Rightarrow> nat \<times> nat \<times> bool" where
  "tally (Start m) (n, k, b) = (n + m, k, b)"
| "tally Finish (n, k, b) = (n, n + k, b \<or> 0 < n)"
| "tally (Queue a) (n, k, b) = (n, k, False)"
| "tally e t = t"

definition tallies :: "'a pool \<Rightarrow> nat \<times> nat \<times> bool \<Rightarrow> bool" where
  "tallies s t = (case t of (n, k, b) \<Rightarrow> length (workers s) = n \<and> stops s = k \<and>
     (b \<longrightarrow> work s \<noteq> [] \<longrightarrow> last (work s) = None))"

lemma last_suffix: "suffix xs ys \<Longrightarrow> xs \<noteq> [] \<Longrightarrow> last xs = last ys"
  by (auto simp: suffix_def)

lemma count_list_replicate: "count_list (replicate n x) x = n"
  by (induction n) simp_all

lemma step_tally:
  assumes "pool_step s e s'" "e \<noteq> Cancel_Pending" "tallies s t"
  shows "tallies s' (tally e t)"
proof -
  obtain n k b where t: "t = (n, k, b)" by (cases t)
  show ?thesis
  proof (cases "is_spurious e \<or> internal e")
    case True
    note i = internal_stops[OF assms(1) True]
    have "tally e t = t" using True t by (cases e) auto
    moreover have "last (work s') = last (work s) \<and> work s \<noteq> []" if "work s' \<noteq> []"
      using i last_suffix that by auto
    ultimately show ?thesis using i assms(3) t by (auto simp: tallies_def)
  next
    case False
    have r: "count_list (replicate m Looking) Returned = 0" for m :: nat
      by (induction m) simp_all
    from assms(1) show ?thesis
      by (cases rule: pool_step.cases)
        (use False assms(2,3) r t in \<open>auto simp: count_list_replicate tallies_def stops_def queue_def start_def finish_def last_append last_replicate\<close>)
  qed
qed

lemma run_tally:
  "pool_run pool_empty es s \<Longrightarrow> Cancel_Pending \<notin> set es \<Longrightarrow> tallies s (fold tally es (0, 0, False))"
proof (induction rule: run.induct)
  case (run_snoc es s1 e s2)
  then have c: "e \<noteq> Cancel_Pending" "Cancel_Pending \<notin> set es" by auto
  from step_tally[OF run_snoc.hyps(2) c(1) run_snoc.IH[OF c(2)]] show ?case by simp
qed (simp add: tallies_def stops_def pool_empty_def)

lemma quiescent:
  assumes "watched s" "\<And>e s'. internal e \<Longrightarrow> \<not> pool_step s e s'"
  shows "\<not> active s" "work s \<noteq> [] \<Longrightarrow> set (workers s) \<subseteq> {Returned}"
proof -
  show na: "\<not> active s" using active_step[of s] assms(2) by blast
  have "owed s = 0" using owed_step[of s] assms(2)[of Notify_One] by auto
  moreover have "owed_all s = 0" using pool_step.notify_all[of s] assms(2)[of Notify_All] by auto
  ultimately show "set (workers s) \<subseteq> {Returned}" if "work s \<noteq> []"
    using assms(1) that na worker_cases activeI unfolding watched_def by (metis less_nat_zero_code singleton_iff subsetI)
qed

lemma count_list_all: "set xs \<subseteq> {x} \<Longrightarrow> count_list xs x = length xs"
  by (induction xs) auto

lemma all_count_list: "count_list xs x = length xs \<Longrightarrow> set xs \<subseteq> {x}"
proof (induction xs)
  case (Cons y ys)
  then show ?case using count_le_length[of ys x] by (auto split: if_splits)
qed simp

lemma suffix_last: "suffix xs (ys @ replicate n x) \<Longrightarrow> xs \<noteq> [] \<Longrightarrow> 0 < n \<Longrightarrow> last xs = x"
  by (auto simp: suffix_def) (metis last_append last_replicate less_not_refl replicate_empty)

lemma finish_outcome:
  assumes "pool_run pool_empty es s" "workers s \<noteq> []" "Returned \<notin> set (workers s)" "None \<notin> set (work s)"
    and "pool_run (finish s) fs s'" "\<forall>e\<in>set fs. is_spurious e \<or> internal e"
  shows "length (filter (\<lambda>e. \<not> is_spurious e) fs) \<le> pool_cost (finish s) + length (filter is_spurious fs) \<and>
    ((\<forall>e s''. internal e \<longrightarrow> \<not> pool_step s' e s'') \<longrightarrow>
       set (workers s') = {Returned} \<and> work s' = [] \<and> started s' = started s @ tasks_in (work s) \<and>
       mset (executed s') = mset (started s @ tasks_in (work s)))"
proof -
  have "pool_run pool_empty (es @ [Finish]) (finish s)" by (rule pool_snoc[OF assms(1) pool_step.finish])
  from run_append[of pool_step, OF this assms(5)] have r: "pool_run pool_empty ((es @ [Finish]) @ fs) s'" .
  have w: "watched s'" using watched.run_keeps[OF r] by (simp add: watched_def pool_empty_def)
  have ex: "mset (executed s') + mset (running (workers s')) = mset (started s')"
    using running.run_keeps[OF r] by (simp add: pool_empty_def)
  let ?n = "length (workers s)"
  have st: "stops s' = ?n" "length (workers s') = ?n" "suffix (work s') (work s @ replicate ?n None)"
    using internal_run_stops[OF assms(5,6)] assms(3,4)
    by (auto simp: stops_def finish_def count_list_0_iff count_list_replicate)
  have od: "started s' @ tasks_in (work s') = started s @ tasks_in (work s)"
    using internal_order[OF assms(5,6)] by (simp add: finish_def)
  have len: "length (filter (\<lambda>e. \<not> is_spurious e) fs) \<le> pool_cost (finish s) + length (filter is_spurious fs)"
    using pool_waste.run_pays[OF assms(5) _ assms(6)] by simp
  show ?thesis
  proof (intro conjI impI len)
    assume q: "\<forall>e s''. internal e \<longrightarrow> \<not> pool_step s' e s''"
    have wk: "work s' = []"
    proof (rule ccontr)
      assume ne: "work s' \<noteq> []"
      have "set (workers s') \<subseteq> {Returned}" using quiescent(2)[OF w _ ne] q by blast
      then have "count_list (workers s') Returned = ?n" using st(2) by (simp add: count_list_all)
      then have "None \<notin> set (work s')" using st(1) by (simp add: stops_def count_list_0_iff)
      moreover have "last (work s') = None" using st(3) ne assms(2) by (simp add: suffix_last)
      ultimately show False using ne last_in_set by metis
    qed
    then have "count_list (workers s') Returned = length (workers s')" using st(1,2) by (simp add: stops_def)
    then have "set (workers s') \<subseteq> {Returned}" by (rule all_count_list)
    moreover have "workers s' \<noteq> []" using st(2) assms(2) by auto
    ultimately show ret: "set (workers s') = {Returned}" by (cases "workers s'") auto
    show "work s' = []" by (rule wk)
    show sts: "started s' = started s @ tasks_in (work s)" using od wk by simp
    have "running (workers s') = []" using ret by (auto simp: running_def)
    then show "mset (executed s') = mset (started s @ tasks_in (work s))" using ex sts by simp
  qed
qed

text \<open>C5: Let at least one thread have been started and no thread have returned, and no stop
  message of an earlier finish be queued. After finish, with no further calls of the owner,
  the pool takes a bounded number of steps of its own, one more for each spurious wake-up
  that happens meanwhile; when it can take no more, every thread has returned, the queue is
  empty, and every task pending at finish has been started in order and run exactly
  once.\<close>

theorem pool_finish:
  assumes "pool_run pool_empty es s" "workers s \<noteq> []" "Returned \<notin> set (workers s)" "None \<notin> set (work s)"
    and "pool_run (finish s) fs s'" "\<forall>e\<in>set fs. is_spurious e \<or> internal e"
  shows "length (filter (\<lambda>e. \<not> is_spurious e) fs) \<le> pool_cost (finish s) + length (filter is_spurious fs) \<and>
    ((\<forall>e s''. internal e \<longrightarrow> \<not> pool_step s' e s'') \<longrightarrow>
       set (workers s') = {Returned} \<and> work s' = [] \<and> started s' = started s @ tasks_in (work s) \<and>
       mset (executed s') = mset (started s @ tasks_in (work s)))"
  by (rule finish_outcome[OF assms])

lemma pool_finish_witness:
  "\<exists>fs s'. pool_run (finish \<lparr>work = [Some (7 :: nat)], workers = [Looking], owed = 1, owed_all = 0,
        started = [], executed = []\<rparr>) fs s' \<and> length fs = 5 \<and>
     set (workers s') = {Returned} \<and> mset (executed s') = {#7#}"
proof -
  let ?a = "\<lparr>work = [], workers = [Looking], owed = 0, owed_all = 0, started = [], executed = []\<rparr> :: nat pool"
  let ?s = "\<lparr>work = [Some (7 :: nat)], workers = [Looking], owed = 1, owed_all = 0, started = [], executed = []\<rparr>"
  let ?b = "\<lparr>work = [Some 7, None], workers = [Looking], owed = 1, owed_all = 1, started = [], executed = []\<rparr> :: nat pool"
  let ?f1 = "\<lparr>work = [None], workers = [Running 7], owed = 1, owed_all = 1, started = [7], executed = []\<rparr> :: nat pool"
  let ?f2 = "\<lparr>work = [None], workers = [Looking], owed = 1, owed_all = 1, started = [7], executed = [7]\<rparr> :: nat pool"
  let ?f3 = "\<lparr>work = [], workers = [Returned], owed = 1, owed_all = 1, started = [7], executed = [7]\<rparr> :: nat pool"
  let ?f4 = "\<lparr>work = [], workers = [Returned], owed = 0, owed_all = 1, started = [7], executed = [7]\<rparr> :: nat pool"
  let ?f5 = "\<lparr>work = [], workers = [Returned], owed = 0, owed_all = 0, started = [7], executed = [7]\<rparr> :: nat pool"
  have "pool_run pool_empty [Start 1] ?a"
    by (rule pool_runI[OF pool_nil]) (use pool_step.start[of pool_empty 1] in \<open>simp_all add: start_def pool_empty_def\<close>)
  then have r: "pool_run pool_empty [Start 1, Queue 7] ?s"
    by (rule pool_runI) (use pool_step.queue[of ?a 7] in \<open>simp_all add: queue_def\<close>)
  have f: "finish ?s = ?b"
    by (simp add: finish_def)
  have "pool_run (finish ?s) [Take 0] ?f1" unfolding f
    by (rule pool_runI[OF pool_nil])
      (use take[of 0 ?b] in \<open>simp_all add: is_worker_def take_task_def\<close>)
  then have "pool_run (finish ?s) [Take 0, Ran 0] ?f2"
    by (rule pool_runI) (use ran[of 0 7 ?f1] in \<open>simp_all add: is_worker_def set_worker_def\<close>)
  then have "pool_run (finish ?s) [Take 0, Ran 0, Take 0] ?f3"
    by (rule pool_runI) (use take[of 0 ?f2] in \<open>simp_all add: is_worker_def take_task_def\<close>)
  then have "pool_run (finish ?s) [Take 0, Ran 0, Take 0, Notify_One] ?f4"
    by (rule pool_runI) (use notify_nobody[of ?f3] in simp_all)
  then have run: "pool_run (finish ?s) [Take 0, Ran 0, Take 0, Notify_One, Notify_All] ?f5"
    by (rule pool_runI) (use pool_step.notify_all[of ?f4] in \<open>simp_all add: wake_all_def\<close>)
  have q: "\<forall>e s''. internal e \<longrightarrow> \<not> pool_step ?f5 e s''"
    by (auto elim!: pool_stepE simp: is_worker_def)
  from pool_finish[OF r _ _ _ run] q
  have "set (workers ?f5) = {Returned} \<and> mset (executed ?f5) = {#7#}" by auto
  with run show ?thesis
    by (intro exI[of _ "[Take 0, Ran 0, Take 0, Notify_One, Notify_All]"] exI[of _ ?f5]) simp
qed

end
