(* ===== verification/Task_Test.thy ===== *)
theory Task_Test
  imports Task_Pool
begin

text \<open>
  The program of \<open>test/tasks.cpp\<close> on the pool, as the steps of its main thread among those of
  the pool: it queues eleven tasks, starts five threads, finishes the pool, waits for each
  result, and at the end of \<open>main\<close> destroys the pool, which finishes it once more and waits for
  its threads. Whatever the threads do in between, and whenever a condition wakes one of them
  on its own, the program comes to its end with every result ten times its argument.
\<close>

subsection \<open>The program\<close>

definition test_function :: "int \<Rightarrow> int" where "test_function a = a * 10"

text \<open>
  What the main thread does, one call at a time. \<open>start(5)\<close> starts its threads one by one, and
  they may run before the next is there. \<open>Do_Get i\<close> is \<open>get\<close> on the future of task \<open>i\<close>; the
  destructor of \<open>tasks\<close> is \<open>Do_Destroy\<close> (its body, which calls \<open>finish\<close>) and then the
  destruction of the futures in \<open>finished_\<close>, each of which waits for its thread (\<open>Do_Join\<close>).
\<close>

datatype main_op = Do_Queue int | Do_Start | Do_Finish | Do_Get int | Do_Destroy | Do_Join nat

definition test_main :: "main_op list" where
  "test_main = map Do_Queue [0, 1, 2, 3, 4, 5, 6, 7, 8, 9, 10] @ replicate 5 Do_Start @ [Do_Finish] @
     map Do_Get [0, 1, 2, 3, 4, 5, 6, 7, 8, 9, 10] @ [Do_Destroy] @ map Do_Join [0, 1, 2, 3, 4]"

text \<open>
  \<open>todo\<close> is what is left of \<open>main\<close>, \<open>results\<close> the futures that are ready (by the argument of
  their task), \<open>got\<close> the results that \<open>main\<close> has printed.
\<close>

record test_prog =
  tpool :: "int pool"
  todo :: "main_op list"
  results :: "int \<Rightarrow> int option"
  got :: "int list"

definition test_init :: test_prog where
  "test_init = \<lparr>tpool = pool_empty, todo = test_main, results = (\<lambda>_. None), got = []\<rparr>"

text \<open>The steps of the pool that are not calls of its owner, and the steps of \<open>main\<close>.\<close>

fun owner :: "'a pool_event \<Rightarrow> bool" where
  "owner (Queue _) = True"
| "owner (Start _) = True"
| "owner Cancel_Pending = True"
| "owner Finish = True"
| "owner _ = False"

datatype test_event = Main | Pool "int pool_event"

inductive test_step :: "test_prog \<Rightarrow> test_event \<Rightarrow> test_prog \<Rightarrow> bool" where
  main_queue: "todo t = Do_Queue i # ops \<Longrightarrow>
    test_step t Main (t\<lparr>tpool := queue i (tpool t), todo := ops\<rparr>)"
| main_start: "todo t = Do_Start # ops \<Longrightarrow> test_step t Main (t\<lparr>tpool := start 1 (tpool t), todo := ops\<rparr>)"
| main_finish: "todo t = Do_Finish # ops \<Longrightarrow> test_step t Main (t\<lparr>tpool := finish (tpool t), todo := ops\<rparr>)"
| main_get: "todo t = Do_Get i # ops \<Longrightarrow> results t i = Some r \<Longrightarrow>
    test_step t Main (t\<lparr>got := got t @ [r], todo := ops\<rparr>)"
| main_destroy: "todo t = Do_Destroy # ops \<Longrightarrow>
    test_step t Main (t\<lparr>tpool := tasks_destroy (tpool t), todo := ops\<rparr>)"
| main_join: "todo t = Do_Join k # ops \<Longrightarrow> is_worker k Returned (tpool t) \<Longrightarrow>
    test_step t Main (t\<lparr>todo := ops\<rparr>)"
| thread_ran: "pool_step (tpool t) (Ran k) p \<Longrightarrow> is_worker k (Running a) (tpool t) \<Longrightarrow>
    test_step t (Pool (Ran k)) (t\<lparr>tpool := p, results := (results t)(a \<mapsto> test_function a)\<rparr>)"
| thread_other: "pool_step (tpool t) e p \<Longrightarrow> \<not> owner e \<Longrightarrow> \<forall>k. e \<noteq> Ran k \<Longrightarrow>
    test_step t (Pool e) (t\<lparr>tpool := p\<rparr>)"

inductive_cases test_stepE: "test_step t e t'"

subsection \<open>The pool under the program\<close>

text \<open>What the rest of \<open>main\<close> calls on the pool, waits for and joins.\<close>

fun pool_calls :: "main_op list \<Rightarrow> int pool_event list" where
  "pool_calls [] = []"
| "pool_calls (Do_Queue i # ops) = Queue i # pool_calls ops"
| "pool_calls (Do_Start # ops) = Start 1 # pool_calls ops"
| "pool_calls (Do_Finish # ops) = Finish # pool_calls ops"
| "pool_calls (Do_Destroy # ops) = Finish # pool_calls ops"
| "pool_calls (_ # ops) = pool_calls ops"

fun gets :: "main_op list \<Rightarrow> int list" where
  "gets [] = []"
| "gets (Do_Get i # ops) = i # gets ops"
| "gets (_ # ops) = gets ops"

text \<open>
  The pool's part of a run of the program is a run of the pool whose owner makes the calls of
  \<open>main\<close> so far; a future is ready exactly when its task has run.
\<close>

definition test_inv :: "test_prog \<Rightarrow> bool" where
  "test_inv t \<longleftrightarrow> suffix (todo t) test_main \<and>
     (\<exists>es. pool_run pool_empty es (tpool t) \<and> filter owner es @ pool_calls (todo t) = pool_calls test_main) \<and>
     results t = (\<lambda>i. if i \<in> set (executed (tpool t)) then Some (test_function i) else None) \<and>
     got t @ map test_function (gets (todo t)) = map test_function (gets test_main) \<and>
     (\<forall>i\<in>set (gets test_main). i \<in> set (gets (todo t)) \<or> i \<in> set (executed (tpool t))) \<and>
     (\<forall>k<5. Do_Join k \<in> set (todo t) \<or> is_worker k Returned (tpool t))"

lemma returned_stays:
  assumes "pool_step s e s'" "is_worker k Returned s"
  shows "is_worker k Returned s'"
  using assms(1)
proof (cases rule: pool_step.cases)
  case (take i)
  then show ?thesis using assms(2)
    by (auto simp: is_worker_def take_task_def nth_list_update split: list.splits option.splits)
qed (use assms(2) in \<open>auto simp: is_worker_def queue_def start_def cancel_pending_def finish_def set_worker_def
      wake_all_def nth_append nth_list_update\<close>)

lemma executed_step: "pool_step s e s' \<Longrightarrow> \<forall>k. e \<noteq> Ran k \<Longrightarrow> executed s' = executed s"
  by (cases rule: pool_step.cases)
    (auto simp: queue_def start_def cancel_pending_def finish_def set_worker_def take_task_def
      split: list.splits option.splits)

lemma executed_grows: "pool_step s e s' \<Longrightarrow> set (executed s) \<subseteq> set (executed s')"
  by (cases "\<exists>k. e = Ran k") (auto simp: executed_step elim!: pool_stepE simp: set_worker_def)

text \<open>A call of \<open>main\<close> on the pool, a step of the pool itself, and the other two steps of \<open>main\<close>.\<close>

lemma inv_call:
  assumes "test_inv t" "pool_step (tpool t) e p" "todo t = x # ops"
    and "pool_calls (x # ops) = e # pool_calls ops" "gets (x # ops) = gets ops" "owner e" "\<forall>k. x \<noteq> Do_Join k"
  shows "test_inv (t\<lparr>tpool := p, todo := ops\<rparr>)"
proof -
  obtain es where es: "pool_run pool_empty es (tpool t)" "filter owner es @ pool_calls (todo t) = pool_calls test_main"
    using assms(1) by (auto simp: test_inv_def)
  have "pool_run pool_empty (es @ [e]) p" by (rule run_snoc[OF es(1) assms(2)])
  moreover have "filter owner (es @ [e]) @ pool_calls ops = pool_calls test_main"
    using es(2) assms(3,4,6) by simp
  moreover have "executed p = executed (tpool t)" using assms(6) by (intro executed_step[OF assms(2)]) auto
  moreover have "\<forall>k<5. Do_Join k \<in> set ops \<or> is_worker k Returned p"
    using assms(1,3,7) returned_stays[OF assms(2)] by (fastforce simp: test_inv_def)
  moreover have "suffix ops test_main" using assms(1,3) by (auto simp: test_inv_def dest: suffix_ConsD)
  ultimately show ?thesis using assms(1,3,5) by (auto simp: test_inv_def)
qed

lemma inv_thread:
  assumes "test_inv t" "pool_step (tpool t) e p" "\<not> owner e"
    and "r = (\<lambda>i. if i \<in> set (executed p) then Some (test_function i) else None)"
  shows "test_inv (t\<lparr>tpool := p, results := r\<rparr>)"
proof -
  obtain es where es: "pool_run pool_empty es (tpool t)" "filter owner es @ pool_calls (todo t) = pool_calls test_main"
    using assms(1) by (auto simp: test_inv_def)
  have "pool_run pool_empty (es @ [e]) p" by (rule run_snoc[OF es(1) assms(2)])
  moreover have "filter owner (es @ [e]) @ pool_calls (todo t) = pool_calls test_main"
    using es(2) assms(3) by simp
  moreover have "\<forall>k<5. Do_Join k \<in> set (todo t) \<or> is_worker k Returned p"
    using assms(1) returned_stays[OF assms(2)] by (auto simp: test_inv_def)
  moreover have "set (executed (tpool t)) \<subseteq> set (executed p)" by (rule executed_grows[OF assms(2)])
  ultimately show ?thesis using assms(1,4) by (auto simp: test_inv_def)
qed

lemma ran_executed: "pool_step s (Ran k) p \<Longrightarrow> is_worker k (Running a) s \<Longrightarrow> executed p = executed s @ [a]"
  by (auto elim!: pool_stepE simp: is_worker_def set_worker_def)

lemma step_test_inv:
  assumes "test_step t e t'" "test_inv t"
  shows "test_inv t'"
  using assms(1)
proof (cases rule: test_step.cases)
  case (main_queue i ops)
  with inv_call[OF assms(2) pool_step.queue main_queue(3)] show ?thesis by simp
next
  case (main_start ops)
  with inv_call[OF assms(2) pool_step.start main_start(3)] show ?thesis by simp
next
  case (main_finish ops)
  with inv_call[OF assms(2) pool_step.finish main_finish(3)] show ?thesis by simp
next
  case (main_destroy ops)
  with inv_call[OF assms(2) pool_step.finish main_destroy(3)] show ?thesis by (simp add: tasks_destroy_def)
next
  case (main_get i ops r)
  then have "r = test_function i" using assms(2) by (auto simp: test_inv_def split: if_splits)
  then show ?thesis using main_get assms(2) by (auto simp: test_inv_def dest: suffix_ConsD)
next
  case (main_join k ops)
  then show ?thesis using assms(2) by (auto simp: test_inv_def dest: suffix_ConsD)
next
  case (thread_ran k p a)
  have "(results t)(a \<mapsto> test_function a) =
      (\<lambda>i. if i \<in> set (executed p) then Some (test_function i) else None)"
    using assms(2) ran_executed[OF thread_ran(3,4)] by (auto simp: test_inv_def)
  from inv_thread[OF assms(2) thread_ran(3) _ this] thread_ran(2) show ?thesis by simp
next
  case (thread_other f p)
  have "results t = (\<lambda>i. if i \<in> set (executed p) then Some (test_function i) else None)"
    using assms(2) executed_step[OF thread_other(3,5)] by (simp add: test_inv_def)
  from inv_thread[OF assms(2) thread_other(3,4) this] thread_other(2) show ?thesis by simp
qed

lemma test_inv_init: "test_inv test_init"
  using run_nil[of pool_step pool_empty]
  by (auto simp: test_inv_def test_init_def pool_empty_def test_main_def eval_nat_numeral less_Suc_eq)

subsection \<open>How long it takes\<close>

fun is_waste :: "test_event \<Rightarrow> bool" where
  "is_waste (Pool e) = is_spurious e"
| "is_waste Main = False"

text \<open>What each call of \<open>main\<close> counts for: more than it adds to the cost of the pool.\<close>

fun op_cost :: "main_op \<Rightarrow> nat" where
  "op_cost (Do_Queue _) = 5"
| "op_cost Do_Start = 2"
| "op_cost Do_Finish = 17"
| "op_cost (Do_Get _) = 1"
| "op_cost Do_Destroy = 17"
| "op_cost (Do_Join _) = 1"

definition test_cost :: "test_prog \<Rightarrow> nat" where
  "test_cost t = cost_with 6 (tpool t) + sum_list (map op_cost (todo t))"

lemma test_cost_init: "test_cost test_init = 115"
  by (simp add: test_cost_def test_init_def cost_with_def pool_empty_def test_main_def sum_list_replicate)

text \<open>There are never more than the five threads.\<close>

definition five_threads :: "test_prog \<Rightarrow> bool" where
  "five_threads t \<longleftrightarrow> length (workers (tpool t)) + count_list (todo t) Do_Start = 5"

lemma not_owner: "\<not> owner e \<longleftrightarrow> is_spurious e \<or> internal e"
  by (cases e) simp_all

lemma thread_step_pool:
  assumes "test_step t (Pool e) t'"
  obtains p where "pool_step (tpool t) e p" "tpool t' = p" "todo t' = todo t" "is_spurious e \<or> internal e"
  using assms by (cases rule: test_step.cases) (auto simp: not_owner)

lemma step_five: "test_step t e t' \<Longrightarrow> five_threads t \<Longrightarrow> five_threads t'"
proof (cases e)
  case (Pool f)
  assume step: "test_step t e t'" and five: "five_threads t"
  from step[unfolded Pool] obtain p
    where "pool_step (tpool t) f p" "tpool t' = p" "todo t' = todo t" "is_spurious f \<or> internal f"
    by (rule thread_step_pool)
  then show ?thesis using own_step_length[of "tpool t" f p] five by (simp add: five_threads_def)
next
  case Main
  assume "test_step t e t'" "five_threads t"
  then show ?thesis using Main
    by (auto elim!: test_stepE simp: five_threads_def queue_def start_def finish_def tasks_destroy_def)
qed

lemma main_step_cost: "test_step t Main t' \<Longrightarrow> five_threads t \<Longrightarrow> test_cost t' < test_cost t"
  by (cases rule: test_step.cases)
    (auto simp: test_cost_def cost_with_def five_threads_def queue_def start_def finish_def tasks_destroy_def)

interpretation test_waste: wasteful test_step is_waste "\<lambda>_. True" "\<lambda>t. test_inv t \<and> five_threads t" test_cost
proof unfold_locales
  fix t t' e
  assume step: "test_step t e t'" and inv: "test_inv t \<and> five_threads t"
  show "test_inv t' \<and> five_threads t'" using step_test_inv[OF step] step_five[OF step] inv by simp
  have l: "length (workers (tpool t)) < 6" using inv by (simp add: five_threads_def)
  show "test_cost t' < test_cost t" if "\<not> is_waste e"
  proof (cases e)
    case (Pool f)
    then show ?thesis using step that internal_cost_with[of "tpool t" f _ 6] l
      by (auto elim!: thread_step_pool simp: test_cost_def)
  next
    case Main
    then show ?thesis using main_step_cost step inv by simp
  qed
  show "test_cost t' \<le> test_cost t + 1" if "is_waste e"
  proof (cases e)
    case (Pool f)
    then show ?thesis using step that spurious_cost_with[of "tpool t" f _ 6]
      by (auto elim!: thread_step_pool simp: test_cost_def)
  next
    case Main
    then show ?thesis using that by simp
  qed
qed

subsection \<open>Where it ends\<close>

lemma tally_owner: "fold tally es t = fold tally (filter owner es) t"
proof (induction es arbitrary: t)
  case (Cons e es)
  obtain n k b where "t = (n, k, b)" by (cases t)
  then show ?case using Cons by (cases e) simp_all
qed simp

lemma queued_owner: "concat (map queued es) = concat (map queued (filter owner es))"
proof (induction es)
  case (Cons e es)
  then show ?case by (cases e) simp_all
qed simp

definition test_args :: "int list" where "test_args = [0, 1, 2, 3, 4, 5, 6, 7, 8, 9, 10]"

lemma test_main_calls:
  "pool_calls test_main = (map Queue test_args @ replicate 5 (Start 1)) @ [Finish, Finish]"
  "gets test_main = test_args"
  by (simp_all add: test_main_def test_args_def eval_nat_numeral)

text \<open>Waiting for a result: one finish is done. Waiting for a thread, or at the end: both are.\<close>

lemma main_at_get: "suffix (Do_Get i # ops) test_main \<Longrightarrow> pool_calls ops = [Finish] \<and> i \<in> set test_args"
  unfolding test_main_def eval_nat_numeral BitM.simps
  by (auto simp: suffix_Cons test_args_def)

lemma main_at_join: "suffix (Do_Join k # ops) test_main \<Longrightarrow> pool_calls ops = [] \<and> k < 5"
  unfolding test_main_def eval_nat_numeral BitM.simps
  by (auto simp: suffix_Cons)

text \<open>What the invariant says of the pool when \<open>main\<close> still has the calls \<open>rest\<close> to make.\<close>

lemma pool_at:
  assumes "test_inv t" "pool_calls (todo t) = rest" "(map Queue test_args @ replicate 5 (Start 1)) @ past @ rest = pool_calls test_main"
  shows "watched (tpool t)"
    "mset (executed (tpool t)) + mset (running (workers (tpool t))) = mset (started (tpool t))"
    "started (tpool t) @ tasks_in (work (tpool t)) = test_args"
    "tallies (tpool t) (fold tally ((map Queue test_args @ replicate 5 (Start 1)) @ past) (0, 0, False))"
proof -
  obtain es where es: "pool_run pool_empty es (tpool t)" "filter owner es @ rest = pool_calls test_main"
    using assms(1,2) by (auto simp: test_inv_def)
  then have f: "filter owner es = (map Queue test_args @ replicate 5 (Start 1)) @ past"
    using assms(3) by (metis append.assoc append_same_eq)
  have "set (filter owner es) \<subseteq> set (pool_calls test_main)" using es(2) by (metis set_append sup.cobounded1)
  then have c: "Cancel_Pending \<notin> set es" by (auto simp: test_main_calls)
  have "past @ rest = [Finish, Finish]" using assms(3) by (simp add: test_main_calls)
  then have "set (past @ rest) = {Finish}" by simp
  then have d: "set past \<subseteq> {Finish}" by auto
  have nq: "concat (map queued past) = []" using d by (induction past) auto
  show "watched (tpool t)" using watched.run_keeps[OF es(1)] by (simp add: watched_def pool_empty_def)
  show "mset (executed (tpool t)) + mset (running (workers (tpool t))) = mset (started (tpool t))"
    using running.run_keeps[OF es(1)] by (simp add: pool_empty_def)
  have "concat (map queued es) = test_args"
    unfolding queued_owner[of es] f using nq by (simp add: test_args_def)
  then show "started (tpool t) @ tasks_in (work (tpool t)) = test_args"
    using run_order[OF es(1)] c by (simp add: pool_empty_def)
  show "tallies (tpool t) (fold tally ((map Queue test_args @ replicate 5 (Start 1)) @ past) (0, 0, False))"
    using run_tally[OF es(1) c] unfolding tally_owner[of es] f .
qed

lemma at_rest_pool:
  assumes "at_rest test_step (\<lambda>e. \<not> is_waste e) t" "internal e"
  shows "\<not> pool_step (tpool t) e s"
proof
  assume step: "pool_step (tpool t) e s"
  have o: "\<not> owner e" "\<not> is_waste (Pool e)" using assms(2) by (cases e; simp)+
  have "\<exists>t'. test_step t (Pool e) t'"
  proof (cases "\<exists>k. e = Ran k")
    case True
    then obtain k a where k: "e = Ran k" "is_worker k (Running a) (tpool t)"
      using step by (auto elim: pool_stepE)
    show ?thesis unfolding k(1) by (rule exI, rule thread_ran[OF step[unfolded k(1)] k(2)])
  next
    case False
    then show ?thesis using thread_other[OF step o(1)] by blast
  qed
  then show False using assms(1) o(2) by (auto simp: at_rest_def)
qed

lemma returned_none_running: "set ws \<subseteq> {Returned} \<Longrightarrow> running ws = []"
  by (induction ws) (auto simp: running_def)

text \<open>While \<open>main\<close> waits for a result, a pool at rest has run every task.\<close>

lemma rest_at_get:
  assumes "test_inv t" "todo t = Do_Get i # ops" "at_rest test_step (\<lambda>e. \<not> is_waste e) t"
  shows "results t i \<noteq> None"
proof -
  let ?s = "tpool t"
  have m: "pool_calls ops = [Finish]" "i \<in> set test_args"
    using main_at_get[of i ops] assms(1,2) by (auto simp: test_inv_def)
  have "(map Queue test_args @ replicate 5 (Start 1)) @ [Finish] @ [Finish] = pool_calls test_main"
    by (simp add: test_main_calls)
  note p = pool_at[OF assms(1) _ this]
  have c: "pool_calls (todo t) = [Finish]" using assms(2) m(1) by simp
  have q: "work ?s \<noteq> [] \<Longrightarrow> set (workers ?s) \<subseteq> {Returned}"
    using quiescent(2)[OF p(1)[OF c]] at_rest_pool[OF assms(3)] by blast
  have "fold tally ((map Queue test_args @ replicate 5 (Start 1)) @ [Finish]) (0, 0, False) = (5, 5, True)"
    by (simp add: test_args_def eval_nat_numeral)
  then have t: "length (workers ?s) = 5" "stops ?s = 5" "work ?s \<noteq> [] \<Longrightarrow> last (work ?s) = None"
    using p(4)[OF c] by (simp_all add: tallies_def)
  have w: "work ?s = []"
  proof (rule ccontr)
    assume ne: "work ?s \<noteq> []"
    then have "count_list (workers ?s) Returned = 5" using count_list_all[OF q[OF ne]] t(1) by simp
    then have "None \<notin> set (work ?s)" using t(2) by (simp add: stops_def count_list_0_iff)
    then show False using t(3)[OF ne] last_in_set[OF ne] by metis
  qed
  then have "set (workers ?s) \<subseteq> {Returned}" using t(1,2) by (intro all_count_list) (simp add: stops_def)
  then have "mset (executed ?s) = mset test_args"
    using p(2,3)[OF c] w by (simp add: returned_none_running)
  then have "i \<in> set (executed ?s)" using m(2) mset_eq_setD by metis
  then show ?thesis using assms(1) by (simp add: test_inv_def)
qed

text \<open>While \<open>main\<close> waits for a thread, all threads of a pool at rest have returned.\<close>

lemma rest_at_join:
  assumes "test_inv t" "todo t = Do_Join k # ops" "at_rest test_step (\<lambda>e. \<not> is_waste e) t"
  shows "is_worker k Returned (tpool t)"
proof -
  let ?s = "tpool t"
  have m: "pool_calls ops = []" "k < 5" using main_at_join[of k ops] assms(1,2) by (auto simp: test_inv_def)
  have "(map Queue test_args @ replicate 5 (Start 1)) @ [Finish, Finish] @ [] = pool_calls test_main"
    by (simp add: test_main_calls)
  note p = pool_at[OF assms(1) _ this]
  have c: "pool_calls (todo t) = []" using assms(2) m(1) by simp
  have "fold tally ((map Queue test_args @ replicate 5 (Start 1)) @ [Finish, Finish]) (0, 0, False) = (5, 10, True)"
    by (simp add: test_args_def eval_nat_numeral)
  then have t: "length (workers ?s) = 5" "stops ?s = 10" using p(4)[OF c] by (simp_all add: tallies_def)
  have "work ?s \<noteq> []" using t count_le_length[of "workers ?s" Returned] by (auto simp: stops_def)
  then have "set (workers ?s) \<subseteq> {Returned}"
    using quiescent(2)[OF p(1)[OF c]] at_rest_pool[OF assms(3)] by blast
  moreover have "workers ?s ! k \<in> set (workers ?s)" using t(1) m(2) by simp
  ultimately have "workers ?s ! k = Returned" by blast
  then show ?thesis using t(1) m(2) by (simp add: is_worker_def)
qed

lemma rest_is_end:
  assumes "test_inv t" "at_rest test_step (\<lambda>e. \<not> is_waste e) t"
  shows "todo t = []"
proof (rule ccontr)
  assume "todo t \<noteq> []"
  then obtain x ops where x: "todo t = x # ops" by (cases "todo t") auto
  have "\<exists>t'. test_step t Main t'"
  proof (cases x)
    case (Do_Get i)
    then show ?thesis using x main_get rest_at_get[OF assms(1) _ assms(2)] by blast
  next
    case (Do_Join k)
    then show ?thesis using x main_join rest_at_join[OF assms(1) _ assms(2)] by blast
  qed (use x test_step.intros in blast)+
  then show False using assms(2) by (auto simp: at_rest_def)
qed

lemma at_end:
  assumes "test_inv t" "todo t = []"
  shows "got t = map test_function test_args \<and> mset (executed (tpool t)) = mset test_args \<and>
    workers (tpool t) = replicate 5 Returned"
proof -
  let ?s = "tpool t"
  have "(map Queue test_args @ replicate 5 (Start 1)) @ [Finish, Finish] @ [] = pool_calls test_main"
    by (simp add: test_main_calls)
  note p = pool_at[OF assms(1) _ this]
  have c: "pool_calls (todo t) = []" using assms(2) by simp
  have "fold tally ((map Queue test_args @ replicate 5 (Start 1)) @ [Finish, Finish]) (0, 0, False) = (5, 10, True)"
    by (simp add: test_args_def eval_nat_numeral)
  then have t: "length (workers ?s) = 5" using p(4)[OF c] by (simp add: tallies_def)
  have "\<forall>k<5. is_worker k Returned ?s" using assms by (simp add: test_inv_def)
  then have r: "workers ?s = replicate 5 Returned" using t by (intro nth_equalityI) (auto simp: is_worker_def)
  then have ex: "mset (executed ?s) = mset (started ?s)" using p(2)[OF c] returned_none_running[of "workers ?s"] by simp
  have all: "set test_args \<subseteq> set (executed ?s)" using assms by (simp add: test_inv_def test_main_calls subset_iff)
  have "distinct (started ?s @ tasks_in (work ?s))" unfolding p(3)[OF c] by (simp add: test_args_def)
  moreover have "set (tasks_in (work ?s)) \<subseteq> set (started ?s)"
    using all mset_eq_setD[OF ex] p(3)[OF c] by (metis Un_upper2 set_append subset_trans)
  ultimately have "tasks_in (work ?s) = []" by (cases "tasks_in (work ?s)") auto
  then show ?thesis using ex r p(3)[OF c] assms by (simp add: test_inv_def test_main_calls)
qed

text \<open>C22: The test program ends, in every interleaving of main and the five threads: its steps
  are at most 115 and one more for each spurious wake-up, and a state in which nothing but a
  spurious wake-up is possible is the end of main, the destructor of the pool with its
  second finish and the joining of the threads included. The results read are then 0, 10,
  ..., 100, each of the eleven tasks ran exactly once, and all five threads have
  returned.\<close>

theorem tasks_test:
  assumes "run test_step test_init es t"
  shows "length (filter (\<lambda>e. \<not> is_waste e) es) \<le> 115 + length (filter is_waste es) \<and>
    ((\<forall>e t'. \<not> is_waste e \<longrightarrow> \<not> test_step t e t') \<longrightarrow>
       todo t = [] \<and> got t = [0, 10, 20, 30, 40, 50, 60, 70, 80, 90, 100] \<and>
       mset (executed (tpool t)) = mset [0, 1, 2, 3, 4, 5, 6, 7, 8, 9, 10] \<and>
       workers (tpool t) = replicate 5 Returned)"
proof -
  have i: "test_inv test_init \<and> five_threads test_init"
    using test_inv_init by (simp add: five_threads_def test_init_def pool_empty_def test_main_def eval_nat_numeral)
  from test_waste.run_pays[OF assms i] have inv: "test_inv t"
    and len: "length (filter (\<lambda>e. \<not> is_waste e) es) \<le> 115 + length (filter is_waste es)"
    by (simp_all add: test_cost_init)
  show ?thesis
  proof (intro conjI impI len)
    assume "\<forall>e t'. \<not> is_waste e \<longrightarrow> \<not> test_step t e t'"
    then have rest: "at_rest test_step (\<lambda>e. \<not> is_waste e) t" by (simp add: at_rest_def)
    show e: "todo t = []" by (rule rest_is_end[OF inv rest])
    from at_end[OF inv e] show "got t = [0, 10, 20, 30, 40, 50, 60, 70, 80, 90, 100]"
      "mset (executed (tpool t)) = mset [0, 1, 2, 3, 4, 5, 6, 7, 8, 9, 10]"
      "workers (tpool t) = replicate 5 Returned"
      by (simp_all add: test_args_def test_function_def)
  qed
qed

lemma tasks_test_witness:
  "\<exists>es t. run test_step test_init es t \<and> length es \<le> 115 \<and> todo t = [] \<and>
     got t = [0, 10, 20, 30, 40, 50, 60, 70, 80, 90, 100]"
proof -
  have i: "test_inv test_init \<and> five_threads test_init"
    using test_inv_init by (simp add: five_threads_def test_init_def pool_empty_def test_main_def eval_nat_numeral)
  obtain es t where r: "run test_step test_init es t" "\<forall>e\<in>set es. \<not> is_waste e"
    "at_rest test_step (\<lambda>e. \<not> is_waste e) t"
    using test_waste.runs_to_rest[OF i] by auto
  have "\<forall>e t'. \<not> is_waste e \<longrightarrow> \<not> test_step t e t'" using r(3) by (simp add: at_rest_def)
  with tasks_test[OF r(1)] r(1,2) show ?thesis by (intro exI[of _ es] exI[of _ t]) (auto simp: filter_id_conv)
qed

end
