(* ===== verification/Shared_Mutex.thy ===== *)
theory Shared_Mutex
  imports Prelude
begin

text \<open>
  The process-shared mutex of \<open>include/realtime_utilities/shared_mutex.h\<close> and
  \<open>src/realtime_utilities/shared_mutex.cpp\<close>. The system calls are the fields of a record;
  the locale \<open>posix_files\<close> says which of them open and close descriptors. A call's integer
  result is 0 where the manual says so on success; \<open>shm_open\<close> and \<open>mmap\<close> return \<open>None\<close> for
  \<open>-1\<close> and \<open>MAP_FAILED\<close>.
\<close>

subsection \<open>System calls\<close>

record ('w, 'a) posix =
  px_shm_open :: "string \<Rightarrow> bool \<Rightarrow> 'w \<Rightarrow> int option \<times> int \<times> 'w"
  px_ftruncate :: "int \<Rightarrow> 'w \<Rightarrow> int \<times> 'w"
  px_mmap :: "int \<Rightarrow> 'w \<Rightarrow> 'a option \<times> 'w"
  px_attr_init :: "'w \<Rightarrow> int \<times> 'w"
  px_attr_setpshared :: "'w \<Rightarrow> int \<times> 'w"
  px_mutex_init :: "'a \<Rightarrow> 'w \<Rightarrow> int \<times> 'w"
  px_mutex_destroy :: "'a option \<Rightarrow> 'w \<Rightarrow> int \<times> 'w"
  px_munmap :: "'a option \<Rightarrow> 'w \<Rightarrow> int \<times> 'w"
  px_close :: "int \<Rightarrow> 'w \<Rightarrow> int \<times> 'w"
  px_shm_unlink :: "string option \<Rightarrow> 'w \<Rightarrow> int \<times> 'w"
  px_malloc :: "nat \<Rightarrow> 'w \<Rightarrow> bool \<times> 'w"
  px_free :: "'w \<Rightarrow> 'w"
  px_fds :: "'w \<Rightarrow> int set"

abbreviation (input) ENOENT :: int where "ENOENT \<equiv> 2"

text \<open>
  What \<open>shm_open\<close> leaves in \<open>errno\<close> is its second result. Nothing is assumed of it when the
  call succeeds: the standard allows a successful call to change \<open>errno\<close>.
\<close>

locale posix_files =
  fixes P :: "('w, 'a) posix"
  assumes open_new: "px_shm_open P n c w = (Some fd, e, w') \<Longrightarrow>
        0 \<le> fd \<and> fd \<notin> px_fds P w \<and> px_fds P w' = insert fd (px_fds P w)"
    and open_fail: "px_shm_open P n c w = (None, e, w') \<Longrightarrow> px_fds P w' = px_fds P w"
    and close_fd: "px_close P fd w = (0, w') \<Longrightarrow> px_fds P w' = px_fds P w - {fd}"
    and keeps: "px_fds P (snd (px_ftruncate P fd w)) = px_fds P w" "px_fds P (snd (px_mmap P fd w)) = px_fds P w"
      "px_fds P (snd (px_attr_init P w)) = px_fds P w" "px_fds P (snd (px_attr_setpshared P w)) = px_fds P w"
      "px_fds P (snd (px_mutex_init P a w)) = px_fds P w" "px_fds P (snd (px_mutex_destroy P p w)) = px_fds P w"
      "px_fds P (snd (px_munmap P p w)) = px_fds P w" "px_fds P (snd (px_shm_unlink P s w)) = px_fds P w"
      "px_fds P (snd (px_malloc P k w)) = px_fds P w" "px_fds P (px_free P w) = px_fds P w"

subsection \<open>The mutex\<close>

abbreviation (input) NAME_MAX :: nat where "NAME_MAX \<equiv> 255"

record 'a shared_mutex_t =
  ptr :: "'a option"
  shm_fd :: int
  sm_name :: "string option"
  created :: bool

text \<open>
  \<open>shared_mutex_init\<close>. \<open>errno\<close> is set to 0 first, so what \<open>shm_open\<close> leaves in it is what is
  tested. The copy of the name is a fault when \<open>malloc\<close> fails or the name does not fit.
\<close>

definition init_pthread :: "('w, 'a) posix \<Rightarrow> 'a \<Rightarrow> 'w \<Rightarrow> bool \<times> 'w" where
  "init_pthread P a w =
     (let (r1, w1) = px_attr_init P w in if r1 \<noteq> 0 then (False, w1) else
      let (r2, w2) = px_attr_setpshared P w1 in if r2 \<noteq> 0 then (False, w2) else
      let (r3, w3) = px_mutex_init P a w2 in (r3 = 0, w3))"

definition copy_name :: "('w, 'a) posix \<Rightarrow> string \<Rightarrow> 'w \<Rightarrow> 'w res" where
  "copy_name P name w =
     (let (ok, w1) = px_malloc P (NAME_MAX + 1) w in
        bind_res (guard_res ok Null_Deref) (\<lambda>_.
        bind_res (guard_res (length name \<le> NAME_MAX) Out_Of_Bounds) (\<lambda>_. Inr w1)))"

text \<open>The two calls of \<open>shm_open\<close>: the descriptor and whether the second call was made.\<close>

definition open_or_create :: "('w, 'a) posix \<Rightarrow> string \<Rightarrow> 'w \<Rightarrow> int option \<times> bool \<times> 'w" where
  "open_or_create P name w =
     (let (f1, e1, w1) = px_shm_open P name False w in
      if e1 = ENOENT then let (f2, e2, w2) = px_shm_open P name True w1 in (f2, True, w2)
      else (f1, False, w1))"

definition shared_mutex_init ::
  "('w, 'a) posix \<Rightarrow> string \<Rightarrow> 'w \<Rightarrow> ('a shared_mutex_t \<times> 'w) res" where
  "shared_mutex_init P name w =
     (let (f, made, w2) = open_or_create P name w in
      (case f of
         None \<Rightarrow> Inr (\<lparr>ptr = None, shm_fd = -1, sm_name = None, created = made\<rparr>, w2)
       | Some fd \<Rightarrow>
           (let m = \<lparr>ptr = None, shm_fd = fd, sm_name = None, created = made\<rparr>;
                (r, w3) = px_ftruncate P fd w2
            in if r \<noteq> 0 then Inr (m, w3)
               else (let (addr, w4) = px_mmap P fd w3 in
                 (case addr of
                    None \<Rightarrow> Inr (m, w4)
                  | Some a \<Rightarrow>
                      (let (ok, w5) = (if made then init_pthread P a w4 else (True, w4))
                       in if \<not> ok then Inr (m, w5)
                          else bind_res (copy_name P name w5) (\<lambda>w6.
                            Inr (m\<lparr>ptr := Some a, sm_name := Some name\<rparr>, w6))))))))"

definition shared_mutex_close :: "('w, 'a) posix \<Rightarrow> 'a shared_mutex_t \<Rightarrow> 'w \<Rightarrow> int \<times> 'w" where
  "shared_mutex_close P m w =
     (let (r1, w1) = px_munmap P (ptr m) w in if r1 \<noteq> 0 then (-1, w1) else
      let (r2, w2) = px_close P (shm_fd m) w1 in if r2 \<noteq> 0 then (-1, w2) else (0, px_free P w2))"

definition shared_mutex_destroy :: "('w, 'a) posix \<Rightarrow> 'a shared_mutex_t \<Rightarrow> 'w \<Rightarrow> int \<times> 'w" where
  "shared_mutex_destroy P m w =
     (let (r0, w0) = px_mutex_destroy P (ptr m) w in if r0 \<noteq> 0 then (-1, w0) else
      let (r1, w1) = px_munmap P (ptr m) w0 in if r1 \<noteq> 0 then (-1, w1) else
      let (r2, w2) = px_close P (shm_fd m) w1 in if r2 \<noteq> 0 then (-1, w2) else
      let (r3, w3) = px_shm_unlink P (sm_name m) w2 in if r3 \<noteq> 0 then (-1, w3) else (0, px_free P w3))"

subsection \<open>Descriptors\<close>

text \<open>
  A first \<open>shm_open\<close> that succeeds and leaves \<open>ENOENT\<close> in \<open>errno\<close> is taken for a failure: the
  object is opened again and the first descriptor is forgotten.
\<close>

definition stray :: "('w, 'a) posix \<Rightarrow> string \<Rightarrow> 'w \<Rightarrow> int set" where
  "stray P name w = {fd. \<exists>w'. px_shm_open P name False w = (Some fd, ENOENT, w')}"

context posix_files
begin

lemma init_pthread_fds: "px_fds P (snd (init_pthread P a w)) = px_fds P w"
  using keeps(3)[of w] keeps(4)[of "snd (px_attr_init P w)"]
    keeps(5)[of a "snd (px_attr_setpshared P (snd (px_attr_init P w)))"]
  by (simp add: init_pthread_def split_beta)

lemma copy_name_fds: "copy_name P name w = Inr w' \<Longrightarrow> px_fds P w' = px_fds P w"
  using keeps(9)[of "NAME_MAX + 1" w] by (auto simp: copy_name_def split_beta res_simps)

lemma open_fds:
  assumes "open_or_create P name w = (f, made, w2)"
  shows "f = Some fd \<Longrightarrow> 0 \<le> fd \<and> fd \<notin> px_fds P w \<union> stray P name w \<and>
      px_fds P w2 = insert fd (px_fds P w \<union> stray P name w)"
    "f = None \<Longrightarrow> px_fds P w2 = px_fds P w \<union> stray P name w"
proof -
  obtain f1 e1 w1 where o: "px_shm_open P name False w = (f1, e1, w1)" using prod_cases3 by blast
  obtain f2 e2 w' where o2: "px_shm_open P name True w1 = (f2, e2, w')" using prod_cases3 by blast
  have "(f = Some fd \<longrightarrow> 0 \<le> fd \<and> fd \<notin> px_fds P w \<union> stray P name w \<and>
        px_fds P w2 = insert fd (px_fds P w \<union> stray P name w)) \<and>
      (f = None \<longrightarrow> px_fds P w2 = px_fds P w \<union> stray P name w)"
  proof (cases "e1 = ENOENT")
    case True
    have k: "px_fds P w1 = px_fds P w \<union> stray P name w"
      using open_fail[of name False w e1 w1] open_new[of name False w _ e1 w1] o True
      by (cases f1) (auto simp: stray_def)
    have r: "f = f2" "w2 = w'" using assms o o2 True by (simp_all add: open_or_create_def)
    show ?thesis using open_new[of name True w1 fd e2 w'] open_fail[of name True w1 e2 w'] o2
      unfolding r k by blast
  next
    case False
    then have r: "f = f1" "w2 = w1" using assms o by (simp_all add: open_or_create_def)
    have k: "stray P name w = {}" using o False by (simp add: stray_def)
    show ?thesis using open_new[of name False w fd e1 w1] open_fail[of name False w e1 w1] o
      unfolding r k by simp
  qed
  then show "f = Some fd \<Longrightarrow> 0 \<le> fd \<and> fd \<notin> px_fds P w \<union> stray P name w \<and>
      px_fds P w2 = insert fd (px_fds P w \<union> stray P name w)"
    "f = None \<Longrightarrow> px_fds P w2 = px_fds P w \<union> stray P name w" by blast+
qed

lemma init_outcome:
  assumes "shared_mutex_init P name w = Inr (m, w')"
  shows "ptr m = None \<and> shm_fd m = -1 \<and> px_fds P w' = px_fds P w \<union> stray P name w \<or>
    0 \<le> shm_fd m \<and> shm_fd m \<notin> px_fds P w \<union> stray P name w \<and>
      px_fds P w' = insert (shm_fd m) (px_fds P w \<union> stray P name w) \<and>
      (ptr m \<noteq> None \<longrightarrow> sm_name m = Some name)"
proof -
  obtain f made w2 where o: "open_or_create P name w = (f, made, w2)" using prod_cases3 by blast
  note fds = open_fds[OF o]
  show ?thesis
  proof (cases f)
    case None
    have "m = \<lparr>ptr = None, shm_fd = -1, sm_name = None, created = made\<rparr>" "w' = w2"
      using assms by (simp_all add: shared_mutex_init_def o None)
    then show ?thesis using fds(2)[OF None] by simp
  next
    case (Some fd)
    obtain r w3 where t: "px_ftruncate P fd w2 = (r, w3)" by force
    obtain ad w4 where mm: "px_mmap P fd w3 = (ad, w4)" by force
    have k: "px_fds P w3 = px_fds P w2" "px_fds P w4 = px_fds P w2"
      using keeps(1)[of fd w2] keeps(2)[of fd w3] t mm by simp_all
    have k5: "px_fds P w5 = px_fds P w2" if "(if made then init_pthread P a w4 else (True, w4)) = (ok, w5)" for a ok w5
      using that k(2) init_pthread_fds[of a w4] by (simp split: if_splits)
    have fd: "shm_fd m = fd \<and> px_fds P w' = px_fds P w2 \<and> (ptr m \<noteq> None \<longrightarrow> sm_name m = Some name)"
    proof (cases "r \<noteq> 0 \<or> ad = None")
      case True
      then show ?thesis using assms k by (cases "r = 0") (auto simp: shared_mutex_init_def o Some t mm Let_def)
    next
      case False
      then obtain a where a: "ad = Some a" "r = 0" by auto
      obtain ok w5 where i: "(if made then init_pthread P a w4 else (True, w4)) = (ok, w5)" by force
      show ?thesis using assms k5[OF i] copy_name_fds[of name w5]
        by (cases ok) (auto simp: shared_mutex_init_def o Some t mm a i Let_def res_simps)
    qed
    with fds(1)[OF Some] show ?thesis by simp
  qed
qed

lemma close_outcome:
  "shared_mutex_close P m w = (0, w') \<Longrightarrow> px_fds P w' = px_fds P w - {shm_fd m}"
  using keeps(7)[of "ptr m" w] close_fd[of "shm_fd m" "snd (px_munmap P (ptr m) w)"] keeps(10)
  by (auto simp: shared_mutex_close_def split_beta prod_eq_iff split: if_splits)

lemma destroy_outcome:
  "shared_mutex_destroy P m w = (0, w') \<Longrightarrow> px_fds P w' = px_fds P w - {shm_fd m}"
  using keeps(6)[of "ptr m" w] keeps(7)[of "ptr m" "snd (px_mutex_destroy P (ptr m) w)"]
    close_fd[of "shm_fd m" "snd (px_munmap P (ptr m) (snd (px_mutex_destroy P (ptr m) w)))"] keeps(8,10)
  by (auto simp: shared_mutex_destroy_def split_beta prod_eq_iff split: if_splits)

end

subsection \<open>An instance in memory\<close>

text \<open>
  A world is a flag (sizing fails), the next descriptor and the open descriptors; \<open>e\<close> is what a
  successful \<open>shm_open\<close> leaves in \<open>errno\<close>.
\<close>

definition posix_mem :: "int \<Rightarrow> (bool \<times> int \<times> int set, nat) posix" where
  "posix_mem e = \<lparr>px_shm_open = (\<lambda>n c (b, k, S). if 0 \<le> k \<and> k \<notin> S then (Some k, e, (b, k + 1, insert k S))
       else (None, 24, (b, k, S))),
     px_ftruncate = (\<lambda>fd w. (if fst w then 1 else 0, w)), px_mmap = (\<lambda>fd w. (Some 0, w)),
     px_attr_init = Pair 0, px_attr_setpshared = Pair 0, px_mutex_init = (\<lambda>a. Pair 0),
     px_mutex_destroy = (\<lambda>p. Pair 0), px_munmap = (\<lambda>p. Pair 0),
     px_close = (\<lambda>fd (b, k, S). (0, (b, k, S - {fd}))), px_shm_unlink = (\<lambda>n. Pair 0),
     px_malloc = (\<lambda>k. Pair True), px_free = (\<lambda>w. w), px_fds = (\<lambda>(b, k, S). S)\<rparr>"

interpretation posix_mem: posix_files "posix_mem e" for e
  by unfold_locales (auto simp: posix_mem_def split: if_splits)

lemma stray_mem: "stray (posix_mem e) n (False, 3, {0, 1, 2}) = (if e = ENOENT then {3} else {})"
  "stray (posix_mem 0) n (b, 3, {0, 1, 2}) = {}"
  by (auto simp: stray_def posix_mem_def)

subsection \<open>Properties\<close>

text \<open>shared_mutex_init returns descriptor -1 and opens nothing, or returns one new descriptor
  that is open on return, with the name stored when the pointer is set; an error after
  shm_open leaves that descriptor open in a result whose pointer is null. In either case a
  first descriptor is open as well when the first shm_open succeeded with ENOENT in
  errno.\<close>

theorem shared_mutex_init_outcome:
  assumes "posix_files P" "shared_mutex_init P name w = Inr (m, w')"
  shows "ptr m = None \<and> shm_fd m = -1 \<and> px_fds P w' = px_fds P w \<union> stray P name w \<or>
    0 \<le> shm_fd m \<and> shm_fd m \<notin> px_fds P w \<union> stray P name w \<and>
      px_fds P w' = insert (shm_fd m) (px_fds P w \<union> stray P name w) \<and>
      (ptr m \<noteq> None \<longrightarrow> sm_name m = Some name)"
  by (rule posix_files.init_outcome[OF assms])

text \<open>Sizing fails: the pointer is null and descriptor 3 is still open.\<close>

lemma shared_mutex_init_outcome_witness:
  "\<exists>m w'. shared_mutex_init (posix_mem 0) ''m'' (True, 3, {0, 1, 2}) = Inr (m, w') \<and> ptr m = None \<and>
     px_fds (posix_mem 0) w' = {0, 1, 2, 3}"
proof -
  have e: "shared_mutex_init (posix_mem 0) ''m'' (True, 3, {0, 1, 2})
      = Inr (\<lparr>ptr = None, shm_fd = 3, sm_name = None, created = False\<rparr>, (True, 4, {3, 0, 1, 2}))"
    by (simp add: shared_mutex_init_def open_or_create_def posix_mem_def)
  have f: "px_fds (posix_mem 0) (True, 3, {0, 1, 2}) = {0, 1, 2}" by (simp add: posix_mem_def)
  from shared_mutex_init_outcome[OF posix_mem.posix_files_axioms e] e f show ?thesis
    by (auto simp: stray_mem)
qed

text \<open>C23: After a successful shared_mutex_init, a successful shared_mutex_close or
  shared_mutex_destroy (with the descriptors unchanged in between) leaves open the
  descriptors that were open before and no other, but for one case: when the first shm_open
  succeeds and leaves ENOENT in errno, which POSIX allows, the code opens the name a second
  time and the first descriptor stays open for good.\<close>

theorem shared_mutex_restores:
  assumes "posix_files P" "shared_mutex_init P name w = Inr (m, w1)" "ptr m \<noteq> None"
    and "px_fds P w2 = px_fds P w1"
    and "shared_mutex_close P m w2 = (0, w3) \<or> shared_mutex_destroy P m w2 = (0, w3)"
  shows "px_fds P w3 = px_fds P w \<union> {fd. \<exists>w'. px_shm_open P name False w = (Some fd, ENOENT, w')}"
proof -
  have "px_fds P w3 = px_fds P w2 - {shm_fd m}"
    using assms(5) posix_files.close_outcome[OF assms(1)] posix_files.destroy_outcome[OF assms(1)] by blast
  then show ?thesis
    using posix_files.init_outcome[OF assms(1,2)] assms(3,4) unfolding stray_def[symmetric] by auto
qed

text \<open>An instance that leaves \<open>e\<close> in \<open>errno\<close>: nothing is left over for 0, a descriptor for \<open>ENOENT\<close>.\<close>

lemma shared_mutex_restores_witness:
  "\<forall>e. \<exists>m w1 w3. shared_mutex_init (posix_mem e) ''m'' (False, 3, {0, 1, 2}) = Inr (m, w1) \<and>
     shared_mutex_close (posix_mem e) m w1 = (0, w3) \<and>
     px_fds (posix_mem e) w3 = (if e = ENOENT then {0, 1, 2, 3} else {0, 1, 2})"
proof
  fix e
  obtain m w1 where i: "shared_mutex_init (posix_mem e) ''m'' (False, 3, {0, 1, 2}) = Inr (m, w1)" "ptr m \<noteq> None"
    by (cases "e = ENOENT")
      (simp_all add: shared_mutex_init_def open_or_create_def copy_name_def init_pthread_def posix_mem_def)
  obtain w3 where c: "shared_mutex_close (posix_mem e) m w1 = (0, w3)"
    by (cases w1) (simp add: shared_mutex_close_def posix_mem_def)
  have f: "px_fds (posix_mem e) (False, 3, {0, 1, 2}) = {0, 1, 2}" by (simp add: posix_mem_def)
  have s: "{fd. \<exists>w'. px_shm_open (posix_mem e) ''m'' False (False, 3, {0, 1, 2}) = (Some fd, ENOENT, w')}
      = (if e = ENOENT then {3} else {})"
    using stray_mem(1)[of e "''m''"] by (simp add: stray_def)
  from shared_mutex_restores[OF posix_mem.posix_files_axioms i refl disjI1[OF c]]
  have "px_fds (posix_mem e) w3 = (if e = ENOENT then {0, 1, 2, 3} else {0, 1, 2})"
    unfolding f s by auto
  then show "\<exists>m w1 w3. shared_mutex_init (posix_mem e) ''m'' (False, 3, {0, 1, 2}) = Inr (m, w1) \<and>
     shared_mutex_close (posix_mem e) m w1 = (0, w3) \<and>
     px_fds (posix_mem e) w3 = (if e = ENOENT then {0, 1, 2, 3} else {0, 1, 2})"
    using i(1) c by blast
qed

end
