(* ===== verification/Realtime_Init.thy ===== *)
theory Realtime_Init
  imports Timer
begin

text \<open>
  The preparation of a real-time process and thread in \<open>realtime_utilities.cpp\<close> and \<open>.h\<close>:
  priority, memory locking and pre-allocation, page-fault reports, the stack check, and the
  list of network interfaces. The operating system is a record of functions on its state;
  both builds of the thread initialisation are modelled, without Cobalt and with it. What
  \<open>getrusage\<close>, \<open>mlockall\<close> and the other calls return is the record's, what the code does with
  it is the model's. A stack on which the array of the stack check fits is assumed.
\<close>

subsection \<open>The operating system\<close>

text \<open>
  \<open>os_malloc\<close> says whether the pointer is not null; \<open>os_touch\<close> writes a byte at an offset of
  the block in hand; \<open>os_mlockall\<close> gives the return value and \<open>errno\<close>; \<open>os_rusage\<close> the major
  and minor faults; \<open>os_pagesize\<close> is \<open>sysconf(_SC_PAGESIZE)\<close>.
\<close>

record 'w os =
  os_setscheduler :: "int \<Rightarrow> int \<Rightarrow> 'w \<Rightarrow> int \<times> 'w"
  os_rusage :: "'w \<Rightarrow> int \<times> int"
  os_mlockall :: "'w \<Rightarrow> int \<times> int \<times> 'w"
  os_mallopt :: "int \<Rightarrow> int \<Rightarrow> 'w \<Rightarrow> 'w"
  os_malloc :: "nat \<Rightarrow> 'w \<Rightarrow> bool \<times> 'w"
  os_touch :: "nat \<Rightarrow> 8 word \<Rightarrow> 'w \<Rightarrow> 'w"
  os_free :: "'w \<Rightarrow> 'w"
  os_clock :: "'w \<Rightarrow> timespec"
  os_pagesize :: int

text \<open>
  What is printed: a page-fault report (its title, major faults, those allowed, minor faults,
  those allowed), or a text on standard output or standard error, without its line breaks.
\<close>

datatype printed =
    Report string int string int string
  | Stdout string
  | Stderr string

text \<open>The process: the system, the two static counters of the report, the output so far.\<close>

record 'w process =
  pr_world :: 'w
  last_majflt :: int
  last_minflt :: int
  pr_out :: "printed list"

definition say :: "printed \<Rightarrow> 'w process \<Rightarrow> 'w process" where
  "say l p = p\<lparr>pr_out := pr_out p @ [l]\<rparr>"

subsection \<open>Priority and errors\<close>

definition setprio :: "'w os \<Rightarrow> int \<Rightarrow> int \<Rightarrow> 'w process \<Rightarrow> bool \<times> 'w process" where
  "setprio S prio sched p =
     (let (r, w) = os_setscheduler S prio sched (pr_world p) in (\<not> r < 0, p\<lparr>pr_world := w\<rparr>))"

definition error :: "int \<Rightarrow> 'w process \<Rightarrow> 'w process \<times> bool res" where
  "error at' p = (say (Stderr (''Some error occured at '' @ string_of_int at')) p, Inl (Exit_Call 1))"

subsection \<open>Page faults\<close>

definition to_int32 :: "int \<Rightarrow> int" where "to_int32 k = sint (word_of_int k :: 32 word)"

definition show_new_pagefault_count ::
  "'w os \<Rightarrow> string \<Rightarrow> string \<Rightarrow> string \<Rightarrow> 'w process \<Rightarrow> bool \<times> 'w process" where
  "show_new_pagefault_count S logtext allowed_maj allowed_min p =
     (let (maj, mi) = os_rusage S (pr_world p);
        q = say (Report logtext (maj - last_majflt p) allowed_maj (mi - last_minflt p) allowed_min) p
      in (True, q\<lparr>last_majflt := to_int32 maj, last_minflt := to_int32 mi\<rparr>))"

subsection \<open>Touching pages\<close>

text \<open>
  \<open>for (i = 0; i < sz; i += sysconf(_SC_PAGESIZE))\<close> over \<open>size_t\<close>: the offsets written, in
  order; the sum wraps at 64 bits. \<open>None\<close>: the loop does not end.
\<close>

partial_function (option) touch_loop :: "int \<Rightarrow> int \<Rightarrow> int \<Rightarrow> int list option" where
  "touch_loop sz page i =
     (if i < sz
      then Option.bind (touch_loop sz page ((i + page) mod 2 ^ 64)) (\<lambda>is. Some (i # is))
      else Some [])"

text \<open>The stack check writes the low byte of the offset, the reservation writes 0.\<close>

definition prove_thread_stack_use_is_safe ::
  "'w os \<Rightarrow> int \<Rightarrow> 'w process \<Rightarrow> (bool \<times> 'w process) res option" where
  "prove_thread_stack_use_is_safe S stacksize p =
     (if stacksize = 0 then Some (Inl Out_Of_Bounds)
      else map_option (\<lambda>is. Inr (show_new_pagefault_count S ''Caused by using thread stack'' ''0'' ''0''
             (p\<lparr>pr_world := fold (\<lambda>i. os_touch S (nat i) (word_of_int i)) is (pr_world p)\<rparr>)))
           (touch_loop stacksize (os_pagesize S) 0))"

definition reserve_process_memory :: "'w os \<Rightarrow> int \<Rightarrow> 'w process \<Rightarrow> (bool \<times> 'w process) res option" where
  "reserve_process_memory S sz p =
     (let (ok, w1) = os_malloc S (nat sz) (pr_world p) in
      if 0 < sz \<and> \<not> ok then Some (Inl Null_Deref)
      else map_option (\<lambda>is. Inr (True,
             p\<lparr>pr_world := os_free S (fold (\<lambda>i. os_touch S (nat i) 0) is w1)\<rparr>))
           (touch_loop sz (os_pagesize S) 0))"

subsection \<open>Initialisation\<close>

abbreviation (input) ENOSYS :: int where "ENOSYS \<equiv> 38"
abbreviation (input) EAGAIN' :: int where "EAGAIN' \<equiv> 11"
abbreviation (input) ENOMEM' :: int where "ENOMEM' \<equiv> 12"
abbreviation (input) M_TRIM_THRESHOLD :: int where "M_TRIM_THRESHOLD \<equiv> -1"
abbreviation (input) M_MMAP_MAX :: int where "M_MMAP_MAX \<equiv> -4"

definition mlock_text :: "int \<Rightarrow> string option" where
  "mlock_text e =
     (if e = ENOSYS then Some ''The implementation does not support this memory locking interface.''
      else if e = EAGAIN' then Some
        ''Some or all of the memory identified by the operation could not be locked when the call was made.''
      else if e = EINVAL then Some ''The flags argument is zero, or includes unimplemented flags.''
      else if e = ENOMEM' then Some
        ''Locking all of the pages currently mapped into the address space of the process would exceed an implementation-dependent limit on the amount of memory that the process may lock.''
      else if e = EPERM then Some
        ''The calling process does not have the appropriate privilege to perform the requested operation.''
      else None)"

definition configure_malloc_behavior :: "'w os \<Rightarrow> 'w process \<Rightarrow> bool \<times> 'w process" where
  "configure_malloc_behavior S p =
     (let (r, e, w1) = os_mlockall S (pr_world p); q = p\<lparr>pr_world := w1\<rparr> in
      if r \<noteq> 0 then (False, case mlock_text e of Some s \<Rightarrow> say (Stderr s) q | None \<Rightarrow> q)
      else (True, q\<lparr>pr_world := os_mallopt S M_MMAP_MAX 0 (os_mallopt S M_TRIM_THRESHOLD (-1) w1)\<rparr>))"

text \<open>
  A step of \<open>rt_main_init\<close>: on false the message is printed and false returned, otherwise
  the next step runs.
\<close>

definition or_exit ::
  "string \<Rightarrow> bool \<times> 'w process \<Rightarrow> ('w process \<Rightarrow> (bool \<times> 'w process) res option) \<Rightarrow> (bool \<times> 'w process) res option"
where
  "or_exit name r next' = (let (ok, p) = r in
     if \<not> ok then Some (Inr (False, say (Stdout (''Error in '' @ name @ ''. Exit.'')) p)) else next' p)"

text \<open>Sequencing of steps that may fail or not end.\<close>

fun and_then :: "'a res option \<Rightarrow> ('a \<Rightarrow> 'b res option) \<Rightarrow> 'b res option" where
  "and_then None f = None"
| "and_then (Some (Inl e)) f = Some (Inl e)"
| "and_then (Some (Inr x)) f = f x"

definition rt_main_init :: "'w os \<Rightarrow> int \<Rightarrow> 'w process \<Rightarrow> (bool \<times> 'w process) res option" where
  "rt_main_init S sz p =
     or_exit ''show_new_pagefault_count'' (show_new_pagefault_count S ''Initial count'' ''>=0'' ''>=0'' p) (\<lambda>p.
     or_exit ''configure_malloc_behavior'' (configure_malloc_behavior S p) (\<lambda>p.
     or_exit ''show_new_pagefault_count''
       (show_new_pagefault_count S ''mlockall() generated'' ''>=0'' ''>=0'' p) (\<lambda>p.
     and_then (reserve_process_memory S sz p) (\<lambda>r. or_exit ''reserve_process_memory'' r (\<lambda>p.
     or_exit ''show_new_pagefault_count''
       (show_new_pagefault_count S ''malloc() and touch generated'' ''>=0'' ''>=0'' p) (\<lambda>p.
     and_then (reserve_process_memory S sz p) (\<lambda>r. or_exit ''reserve_process_memory'' r (\<lambda>p.
     or_exit ''show_new_pagefault_count''
       (show_new_pagefault_count S ''2nd malloc() and use generated'' ''0'' ''0'' p) (\<lambda>p.
     Some (Inr (True, say (Stdout (''Look at the output of ps -leyf, and see that the RSS is now about ''
       @ string_of_int (sz div (1024 * 1024)) @ '' [MB]'')) p)))))))))))"

text \<open>\<open>rt_init_thread\<close>: a \<open>pinfo\<close> of \<open>None\<close> is a null pointer.\<close>

definition rt_init_thread ::
  "bool \<Rightarrow> 'w os \<Rightarrow> int \<Rightarrow> int \<Rightarrow> int \<Rightarrow> period_info option \<Rightarrow> int \<Rightarrow> 'w process
     \<Rightarrow> (bool \<times> period_info option \<times> 'w process) res option" where
  "rt_init_thread nd S stack_size prio sched pinfo period p =
     (let (ok, p1) = setprio S prio sched p in
      if \<not> ok then Some (Inr (False, pinfo, say (Stdout ''Error in setprio.'') p1))
      else
        let p2 = say (Stdout (''I am an RT-thread with a stack that does not generate page-faults during use, stacksize=''
                   @ string_of_int stack_size)) p1;
            (b, p3) = show_new_pagefault_count S ''Caused by creating thread'' ''>=0'' ''>=0'' p2
        in and_then (prove_thread_stack_use_is_safe S stack_size p3) (\<lambda>(b', p4).
          case pinfo of
            None \<Rightarrow> Some (Inr (True, None, p4))
          | Some _ \<Rightarrow> Some (bind_res (assert_res nd (0 < period)) (\<lambda>_.
              Inr (True, Some (timer_periodic_init (os_clock S (pr_world p4)) period), p4)))))"

text \<open>
  The Cobalt branch of \<open>rt_init_thread\<close> asks the Alchemy skin instead. A null task pointer is
  \<open>None\<close>; the information \<open>rt_task_inquire\<close> writes is not read, only its result is; \<open>al_now\<close> is
  \<open>TM_NOW\<close>. The branch uses neither the stack size nor the scheduling policy.
\<close>

record ('w, 't) alchemy =
  al_self :: "'w \<Rightarrow> 't option \<times> 'w"
  al_inquire :: "'t option \<Rightarrow> 'w \<Rightarrow> int \<times> 'w"
  al_set_priority :: "'t option \<Rightarrow> int \<Rightarrow> 'w \<Rightarrow> int \<times> 'w"
  al_set_periodic :: "'t option \<Rightarrow> int \<Rightarrow> int \<Rightarrow> 'w \<Rightarrow> int \<times> 'w"
  al_clock :: "'w \<Rightarrow> timespec"
  al_now :: int

definition task_error_text :: "int \<Rightarrow> string option" where
  "task_error_text r =
     (if r = EINVAL \<or> r = - EINVAL
      then Some ''task is not a valid task descriptor, or if prio is invalid.''
      else if r = EPERM \<or> r = - EPERM
      then Some ''task is NULL and this service was called from an invalid context.''
      else None)"

definition say_task_error :: "int \<Rightarrow> 'w process \<Rightarrow> 'w process" where
  "say_task_error r p = (case task_error_text r of Some l \<Rightarrow> say (Stdout l) p | None \<Rightarrow> p)"

definition rt_init_thread_cobalt ::
  "bool \<Rightarrow> ('w, 't) alchemy \<Rightarrow> int \<Rightarrow> int \<Rightarrow> int \<Rightarrow> period_info option \<Rightarrow> int \<Rightarrow> 'w process
     \<Rightarrow> (bool \<times> period_info option \<times> 'w process) res" where
  "rt_init_thread_cobalt nd A stack_size prio sched pinfo period p =
     (let (curtask, w1) = al_self A (pr_world p);
          (r, w2) = al_inquire A curtask w1
      in if r \<noteq> 0 then Inr (False, pinfo, say_task_error r (p\<lparr>pr_world := w2\<rparr>))
      else
        let (r', w3) = al_set_priority A None prio w2
        in if r' \<noteq> 0 then Inr (False, pinfo, say_task_error r' (p\<lparr>pr_world := w3\<rparr>))
        else
          let (r'', w4) = al_set_periodic A None (al_now A) period w3;
              p4 = p\<lparr>pr_world := w4\<rparr>
          in (case pinfo of
                None \<Rightarrow> Inr (True, None, p4)
              | Some _ \<Rightarrow> bind_res (assert_res nd (0 < period)) (\<lambda>_.
                  Inr (True, Some (timer_periodic_init (al_clock A w4) period), p4))))"

subsection \<open>Network interfaces\<close>

text \<open>
  An entry of the list of \<open>getifaddrs\<close>: its name, the family of its address if it has one,
  and the packet and byte counters of its data if it has any. \<open>gni\<close> is what \<open>getnameinfo\<close>
  gives for an entry: its return value, the host text, and the text of an error.
\<close>

abbreviation (input) AF_INET :: int where "AF_INET \<equiv> 2"
abbreviation (input) AF_INET6 :: int where "AF_INET6 \<equiv> 10"
abbreviation (input) AF_PACKET :: int where "AF_PACKET \<equiv> 17"

record ifaddr =
  ifa_name :: string
  ifa_family :: "int option"
  ifa_stats :: "(int \<times> int \<times> int \<times> int) option"

datatype if_line =
    Iface string string int
  | Failed string
  | Address string
  | Stats int int int int

definition family_text :: "int \<Rightarrow> string" where
  "family_text f = (if f = AF_PACKET then ''AF_PACKET'' else if f = AF_INET then ''AF_INET''
     else if f = AF_INET6 then ''AF_INET6'' else ''???'')"

text \<open>The loop over the list: the lines printed and the names collected, or the exit.\<close>

fun iface_loop :: "(ifaddr \<Rightarrow> int \<times> string \<times> string) \<Rightarrow> ifaddr list \<Rightarrow> if_line list \<Rightarrow> string list
    \<Rightarrow> if_line list \<times> string list res" where
  "iface_loop gni [] out ret = (out, Inr ret)"
| "iface_loop gni (ifa # rest) out ret =
     (case ifa_family ifa of
        None \<Rightarrow> iface_loop gni rest out ret
      | Some family \<Rightarrow>
          let out = out @ [Iface (ifa_name ifa) (family_text family) family];
              (s, host, err) = gni ifa
          in if family = AF_INET \<or> family = AF_INET6
             then if s \<noteq> 0 then (out @ [Failed err], Inl (Exit_Call 1))
                  else iface_loop gni rest (out @ [Address host]) (ret @ [ifa_name ifa])
             else (case ifa_stats ifa of
                    Some (txp, rxp, txb, rxb) \<Rightarrow>
                      iface_loop gni rest (if family = AF_PACKET then out @ [Stats txp rxp txb rxb] else out)
                        (ret @ [ifa_name ifa])
                  | None \<Rightarrow> iface_loop gni rest out (ret @ [ifa_name ifa])))"

text \<open>\<open>None\<close>: \<open>getifaddrs\<close> failed.\<close>

definition get_ifaces ::
  "(ifaddr \<Rightarrow> int \<times> string \<times> string) \<Rightarrow> ifaddr list option \<Rightarrow> if_line list \<times> string list res" where
  "get_ifaces gni ifs = (case ifs of None \<Rightarrow> ([], Inr []) | Some xs \<Rightarrow> iface_loop gni xs [] [])"

subsection \<open>The loop over the pages\<close>

text \<open>The offsets below \<open>sz\<close> at which a page of the block begins, counted from \<open>k\<close>.\<close>

definition page_starts :: "int \<Rightarrow> int \<Rightarrow> nat \<Rightarrow> int list" where
  "page_starts sz page k = map (\<lambda>j. int j * page) [k..<nat ((sz + page - 1) div page)]"

lemma le_div_iff_mult:
  assumes "0 < (p::int)" shows "k \<le> a div p \<longleftrightarrow> k * p \<le> a"
proof
  assume "k \<le> a div p"
  then have "k * p \<le> a div p * p" using assms by simp
  then show "k * p \<le> a" using div_mult_le_self[OF assms, of a] by linarith
next
  assume "k * p \<le> a"
  from zdiv_mono1[OF this assms] show "k \<le> a div p" using assms by simp
qed

lemma page_count_iff:
  assumes "0 < page" "0 \<le> sz"
  shows "k < nat ((sz + page - 1) div page) \<longleftrightarrow> int k * page < sz"
proof -
  have "k < nat ((sz + page - 1) div page) \<longleftrightarrow> int k + 1 \<le> (sz + page - 1) div page"
    by (simp add: zless_nat_eq_int_zless add1_zle_eq)
  also have "\<dots> \<longleftrightarrow> (int k + 1) * page \<le> sz + page - 1" by (rule le_div_iff_mult[OF assms(1)])
  also have "\<dots> \<longleftrightarrow> int k * page < sz" by (simp add: algebra_simps) linarith
  finally show ?thesis .
qed

lemma page_starts_Cons:
  assumes "0 < page" "0 \<le> sz" "int k * page < sz"
  shows "page_starts sz page k = int k * page # page_starts sz page (Suc k)"
  using page_count_iff[OF assms(1,2), of k] assms(3) by (simp add: page_starts_def upt_conv_Cons)

lemma page_starts_Nil:
  assumes "0 < page" "0 \<le> sz" "\<not> int k * page < sz"
  shows "page_starts sz page k = []"
  using page_count_iff[OF assms(1,2), of k] assms(3) by (simp add: page_starts_def)

lemma touch_loop_from:
  assumes "0 < page" "0 \<le> sz" "sz + page \<le> 2 ^ 64"
  shows "touch_loop sz page (int k * page) = Some (page_starts sz page k)"
proof (induction "nat (sz - int k * page)" arbitrary: k rule: less_induct)
  case less
  show ?case
  proof (cases "int k * page < sz")
    case True
    have next': "(int k * page + page) mod 2 ^ 64 = int (Suc k) * page"
      using True assms by (simp add: algebra_simps mod_pos_pos_trivial)
    have "nat (sz - int (Suc k) * page) < nat (sz - int k * page)"
      using True assms(1) by (simp add: algebra_simps)
    from less[OF this] show ?thesis
      using True next' page_starts_Cons[OF assms(1,2) True] by (subst touch_loop.simps) simp
  next
    case False
    then show ?thesis using page_starts_Nil[OF assms(1,2) False] by (subst touch_loop.simps) simp
  qed
qed

text \<open>C32: For a positive page size and a block that ends a page below 2^64, the loop that touches
  memory ends, its writes are the multiples of the page size inside the block, and every
  page of the block is hit.\<close>

theorem touch_loop_pages:
  assumes "0 < page" "0 \<le> sz" "sz + page \<le> 2 ^ 64"
  shows "\<exists>is. touch_loop sz page 0 = Some is \<and> is = page_starts sz page 0 \<and>
    (\<forall>j. 0 \<le> j \<and> j < sz \<longrightarrow> (\<exists>i\<in>set is. i div page = j div page)) \<and> (\<forall>i\<in>set is. 0 \<le> i \<and> i < sz)"
proof -
  have hit: "\<exists>i\<in>set (page_starts sz page 0). i div page = j div page" if "0 \<le> j" "j < sz" for j
  proof -
    have n: "int (nat (j div page)) = j div page" using that assms(1) by (simp add: pos_imp_zdiv_nonneg_iff)
    have "j div page * page < sz" using div_mult_le_self[OF assms(1), of j] that by linarith
    then have "nat (j div page) \<in> set [0..<nat ((sz + page - 1) div page)]"
      using page_count_iff[OF assms(1,2), of "nat (j div page)"] n by simp
    then have "j div page * page \<in> set (page_starts sz page 0)"
      unfolding page_starts_def set_map by (intro image_eqI[of _ _ "nat (j div page)"]) (simp_all only: n)
    then show ?thesis using assms(1) by (intro bexI[of _ "j div page * page"]) auto
  qed
  have "0 \<le> i \<and> i < sz" if "i \<in> set (page_starts sz page 0)" for i
  proof -
    from that have "i \<in> (\<lambda>j. int j * page) ` {0..<nat ((sz + page - 1) div page)}"
      unfolding page_starts_def set_map set_upt .
    then obtain k where "i = int k * page" "k \<in> {0..<nat ((sz + page - 1) div page)}" by (rule imageE)
    then show ?thesis using page_count_iff[OF assms(1,2), of k] assms(1) unfolding atLeastLessThan_iff by simp
  qed
  with hit show ?thesis using touch_loop_from[OF assms, of 0] by auto
qed

lemma touch_loop_pages_witness: "touch_loop 10000 4096 0 = Some [0, 4096, 8192]"
proof -
  have u: "page_starts 10000 4096 0 = [0, 4096, 8192]" by (simp add: page_starts_def upt_rec)
  have "0 < (4096 :: int)" "0 \<le> (10000 :: int)" "10000 + 4096 \<le> (2 ^ 64 :: int)" by simp_all
  from touch_loop_pages[OF this] u show ?thesis by metis
qed

text \<open>With a page size of 0 the loop of a block that is not empty does not end.\<close>

lemma touch_loop_stuck:
  "touch_loop sz page i = Some is \<Longrightarrow> \<not> (page = 0 \<and> 0 \<le> i \<and> i < sz \<and> sz \<le> 2 ^ 64)"
proof (induction arbitrary: "is" rule: touch_loop.raw_induct[rotated, consumes 1])
  case (1 f sz page i)
  then show ?case by (auto simp: bind_eq_Some_conv mod_pos_pos_trivial split: if_splits)
qed

subsection \<open>Memory and page faults\<close>

text \<open>The world after a reservation whose pages are the offsets \<open>is\<close>.\<close>

definition after_reserve :: "'w os \<Rightarrow> int \<Rightarrow> int list \<Rightarrow> 'w \<Rightarrow> 'w" where
  "after_reserve S sz is w = os_free S (fold (\<lambda>i. os_touch S (nat i) 0) is (snd (os_malloc S (nat sz) w)))"

lemma reserve_process_memory_eq:
  assumes "touch_loop sz (os_pagesize S) 0 = Some is"
  shows "reserve_process_memory S sz p =
     (if 0 < sz \<and> \<not> fst (os_malloc S (nat sz) (pr_world p)) then Some (Inl Null_Deref)
      else Some (Inr (True, p\<lparr>pr_world := after_reserve S sz is (pr_world p)\<rparr>)))"
  using assms by (simp add: reserve_process_memory_def after_reserve_def split: prod.splits)

text \<open>What a report leaves alone, and what it prints.\<close>

definition report_of :: "'w os \<Rightarrow> string \<Rightarrow> string \<Rightarrow> string \<Rightarrow> 'w process \<Rightarrow> printed" where
  "report_of S t a1 a2 p = Report t (fst (os_rusage S (pr_world p)) - last_majflt p) a1
     (snd (os_rusage S (pr_world p)) - last_minflt p) a2"

definition counted :: "'w os \<Rightarrow> 'w process \<Rightarrow> 'w process" where
  "counted S p = p\<lparr>last_majflt := to_int32 (fst (os_rusage S (pr_world p))),
                   last_minflt := to_int32 (snd (os_rusage S (pr_world p)))\<rparr>"

lemma show_new_pagefault_count_eq:
  "show_new_pagefault_count S t a1 a2 p = (True, counted S (say (report_of S t a1 a2 p) p))"
  by (simp add: show_new_pagefault_count_def report_of_def counted_def say_def split: prod.splits)

lemma counted_world [simp]: "pr_world (counted S p) = pr_world p" "pr_out (counted S p) = pr_out p"
  by (simp_all add: counted_def)

lemma say_simps [simp]: "pr_world (say l p) = pr_world p" "last_majflt (say l p) = last_majflt p"
  "last_minflt (say l p) = last_minflt p" "pr_out (say l p) = pr_out p @ [l]"
  by (simp_all add: say_def)

lemma or_exit_True [simp]: "or_exit n (True, p) f = f p"
  by (simp add: or_exit_def)

lemma or_exit_False [simp]:
  "or_exit n (False, p) f = Some (Inr (False, say (Stdout (''Error in '' @ n @ ''. Exit.'')) p))"
  by (simp add: or_exit_def)

text \<open>The worlds a successful initialisation goes through.\<close>

definition locked_world :: "'w os \<Rightarrow> 'w \<Rightarrow> 'w" where
  "locked_world S w = os_mallopt S M_MMAP_MAX 0 (os_mallopt S M_TRIM_THRESHOLD (-1) (snd (snd (os_mlockall S w))))"

lemma configure_malloc_behavior_ok:
  "fst (os_mlockall S (pr_world p)) = 0 \<Longrightarrow>
     configure_malloc_behavior S p = (True, p\<lparr>pr_world := locked_world S (pr_world p)\<rparr>)"
  by (auto simp: configure_malloc_behavior_def locked_world_def Let_def split: prod.splits)

lemma configure_malloc_behavior_fails:
  "fst (os_mlockall S (pr_world p)) \<noteq> 0 \<Longrightarrow> fst (configure_malloc_behavior S p) = False"
  by (auto simp: configure_malloc_behavior_def Let_def split: prod.splits)

lemma rt_main_init_success:
  assumes "0 < os_pagesize S" "0 < sz" "sz + os_pagesize S \<le> 2 ^ 64" "fst (os_mlockall S (pr_world p)) = 0"
  shows "let pages = page_starts sz (os_pagesize S) 0;
             w1 = locked_world S (pr_world p); w2 = after_reserve S sz pages w1
    in if \<not> fst (os_malloc S (nat sz) w1) \<or> \<not> fst (os_malloc S (nat sz) w2)
       then rt_main_init S sz p = Some (Inl Null_Deref)
       else \<exists>q. rt_main_init S sz p = Some (Inr (True, q)) \<and> pr_world q = after_reserve S sz pages w2"
proof -
  have t: "touch_loop sz (os_pagesize S) 0 = Some (page_starts sz (os_pagesize S) 0)"
    using touch_loop_from[of "os_pagesize S" sz 0] assms(1-3) by simp
  show ?thesis using assms(2,4)
    by (simp add: rt_main_init_def show_new_pagefault_count_eq reserve_process_memory_eq[OF t]
        configure_malloc_behavior_ok Let_def)
qed

lemma rt_main_init_unlocked:
  assumes "fst (os_mlockall S (pr_world p)) \<noteq> 0"
  shows "\<exists>q. rt_main_init S sz p = Some (Inr (False, q))"
proof -
  let ?p = "counted S (say (report_of S ''Initial count'' ''>=0'' ''>=0'' p) p)"
  show ?thesis using assms configure_malloc_behavior_fails[of S ?p]
    by (cases "configure_malloc_behavior S ?p") (simp add: rt_main_init_def show_new_pagefault_count_eq)
qed

text \<open>C11: rt_main_init returns false when mlockall fails; otherwise it dereferences a null
  pointer when either malloc fails, and else returns true with the memory locked, malloc
  configured, and every page of the block touched and freed twice.\<close>

theorem rt_main_init_outcome:
  assumes "0 < os_pagesize S" "0 < sz" "sz + os_pagesize S \<le> 2 ^ 64"
  shows "let res = rt_main_init S sz p; pages = page_starts sz (os_pagesize S) 0;
             w1 = locked_world S (pr_world p); w2 = after_reserve S sz pages w1
    in if fst (os_mlockall S (pr_world p)) \<noteq> 0 then \<exists>q. res = Some (Inr (False, q))
       else if \<not> fst (os_malloc S (nat sz) w1) \<or> \<not> fst (os_malloc S (nat sz) w2)
       then res = Some (Inl Null_Deref)
       else \<exists>q. res = Some (Inr (True, q)) \<and> pr_world q = after_reserve S sz pages w2"
  using rt_main_init_success[OF assms, of p] rt_main_init_unlocked[of S p sz]
  by (cases "fst (os_mlockall S (pr_world p)) = 0") (simp_all add: Let_def)

text \<open>A system whose state counts the major faults: a touched page is one fault.\<close>

definition demo_os :: "(int \<times> bool) os" where
  "demo_os = \<lparr>os_setscheduler = (\<lambda>pr sc w. (if pr = 99 then -1 else 0, w)),
     os_rusage = (\<lambda>w. (max 0 (min 1000000 (fst w)), 0)), os_mlockall = (\<lambda>w. (if snd w then 0 else -1, 1, w)),
     os_mallopt = (\<lambda>_ _ w. w), os_malloc = (\<lambda>n w. (n < 100000, w)),
     os_touch = (\<lambda>_ _ (k, b). (k + 1, b)), os_free = (\<lambda>w. w),
     os_clock = (\<lambda>_. \<lparr>tv_sec = 7, tv_nsec = 8\<rparr>), os_pagesize = 4096\<rparr>"

definition demo_process :: "bool \<Rightarrow> (int \<times> bool) process" where
  "demo_process b = \<lparr>pr_world = (3, b), last_majflt = 0, last_minflt = 0, pr_out = []\<rparr>"

lemma page_starts_10000: "page_starts 10000 4096 0 = [0, 4096, 8192]"
  by (simp add: page_starts_def upt_rec)

lemma rt_main_init_outcome_witness:
  "(\<exists>q. rt_main_init demo_os 10000 (demo_process True) = Some (Inr (True, q)) \<and> pr_world q = (9, True)) \<and>
   (\<exists>q. rt_main_init demo_os 10000 (demo_process False) = Some (Inr (False, q)))"
proof -
  have "0 < os_pagesize demo_os" "(0 :: int) < 10000" "10000 + os_pagesize demo_os \<le> 2 ^ 64"
    by (simp_all add: demo_os_def)
  note r = rt_main_init_outcome[OF this]
  have p: "page_starts 10000 (os_pagesize demo_os) 0 = [0, 4096, 8192]"
    by (simp add: demo_os_def page_starts_10000)
  show ?thesis using r[of "demo_process True"] r[of "demo_process False"] unfolding p
    by (simp add: demo_os_def demo_process_def locked_world_def after_reserve_def Let_def)
qed

text \<open>The major faults of the reports of an output.\<close>

fun majors :: "printed list \<Rightarrow> int list" where
  "majors [] = []"
| "majors (Report _ m _ _ _ # out) = m # majors out"
| "majors (_ # out) = majors out"

lemma majors_append [simp]: "majors (xs @ ys) = majors xs @ majors ys"
  by (induction xs rule: majors.induct) auto

lemma to_int32_small: "0 \<le> k \<Longrightarrow> k < 2 ^ 31 \<Longrightarrow> to_int32 k = k"
  by (simp add: to_int32_def sint_sbintrunc' signed_take_bit_int_eq_self)

text \<open>A successful rt_main_init prints four reports whose major page faults add up to the final
  reading less the counter at the start, as long as the readings fit an int; the counter is
  left at the final reading.\<close>

theorem rt_main_init_pagefaults:
  assumes "0 < os_pagesize S" "0 < sz" "sz + os_pagesize S \<le> 2 ^ 64"
    and "\<And>w. 0 \<le> fst (os_rusage S w) \<and> fst (os_rusage S w) < 2 ^ 31"
    and "rt_main_init S sz p = Some (Inr (True, q))"
  shows "\<exists>m1 m2 m3 m4. majors (pr_out q) = majors (pr_out p) @ [m1, m2, m3, m4] \<and>
    m1 + m2 + m3 + m4 = fst (os_rusage S (pr_world q)) - last_majflt p \<and>
    last_majflt q = fst (os_rusage S (pr_world q))"
proof -
  have t: "touch_loop sz (os_pagesize S) 0 = Some (page_starts sz (os_pagesize S) 0)"
    using touch_loop_from[of "os_pagesize S" sz 0] assms(1-3) by simp
  note eqs = rt_main_init_def show_new_pagefault_count_eq reserve_process_memory_eq[OF t]
  have ok: "fst (os_mlockall S (pr_world p)) = 0" using rt_main_init_unlocked[of S p sz] assms(5) by fastforce
  have "to_int32 (fst (os_rusage S w)) = fst (os_rusage S w)" for w
    using to_int32_small assms(4) by blast
  then show ?thesis using assms(2,5) ok
    by (auto simp: eqs configure_malloc_behavior_ok counted_def report_of_def split: if_splits)
qed

lemma rt_main_init_pagefaults_witness:
  "\<exists>q. rt_main_init demo_os 10000 (demo_process True) = Some (Inr (True, q)) \<and>
     (\<exists>m1 m2 m3 m4. majors (pr_out q) = [m1, m2, m3, m4] \<and> m1 + m2 + m3 + m4 = 9)"
proof -
  have a: "0 < os_pagesize demo_os" "(0 :: int) < 10000" "10000 + os_pagesize demo_os \<le> 2 ^ 64"
    by (simp_all add: demo_os_def)
  have "fst (os_mlockall demo_os (pr_world (demo_process True))) = 0"
    by (simp add: demo_os_def demo_process_def)
  from rt_main_init_success[OF a this]
  have "\<exists>q. rt_main_init demo_os 10000 (demo_process True) = Some (Inr (True, q)) \<and> pr_world q = (9, True)"
    by (simp add: demo_os_def demo_process_def locked_world_def after_reserve_def Let_def page_starts_10000)
  then obtain q where q: "rt_main_init demo_os 10000 (demo_process True) = Some (Inr (True, q))"
    "pr_world q = (9, True)" by blast
  have "0 \<le> fst (os_rusage demo_os w) \<and> fst (os_rusage demo_os w) < 2 ^ 31" for w
    by (simp add: demo_os_def)
  from rt_main_init_pagefaults[OF a this q(1)] q show ?thesis
    by (auto simp: demo_process_def) (auto simp: demo_os_def)
qed

subsection \<open>Threads\<close>

text \<open>The process when the stack check begins, and when it has ended.\<close>

definition thread_process :: "'w os \<Rightarrow> int \<Rightarrow> int \<Rightarrow> int \<Rightarrow> 'w process \<Rightarrow> 'w process" where
  "thread_process S stack_size prio sched p =
     counted S (let q = say (Stdout (''I am an RT-thread with a stack that does not generate page-faults during use, stacksize=''
         @ string_of_int stack_size)) (snd (setprio S prio sched p))
       in say (report_of S ''Caused by creating thread'' ''>=0'' ''>=0'' q) q)"

definition touched_stack :: "'w os \<Rightarrow> int \<Rightarrow> 'w process \<Rightarrow> 'w" where
  "touched_stack S stack_size p =
     fold (\<lambda>i. os_touch S (nat i) (word_of_int i)) (page_starts stack_size (os_pagesize S) 0) (pr_world p)"

lemma prove_thread_stack_use_is_safe_eq:
  assumes "touch_loop stacksize (os_pagesize S) 0 = Some (page_starts stacksize (os_pagesize S) 0)" "0 < stacksize"
  shows "\<exists>q. prove_thread_stack_use_is_safe S stacksize p = Some (Inr (True, q)) \<and>
    pr_world q = touched_stack S stacksize p"
  using assms
  by (simp add: prove_thread_stack_use_is_safe_def touched_stack_def show_new_pagefault_count_eq)

text \<open>C37: rt_init_thread returns false exactly when the priority cannot be set; otherwise it
  touches every page of the stack, asserts a positive period when a period_info is given,
  and stores in it the clock read after the stack check and that period.\<close>

theorem rt_init_thread_outcome:
  assumes "0 < os_pagesize S" "0 < stack_size" "stack_size + os_pagesize S \<le> 2 ^ 64"
  shows "let res = rt_init_thread nd S stack_size prio sched pinfo period p;
             w = touched_stack S stack_size (thread_process S stack_size prio sched p)
    in if fst (os_setscheduler S prio sched (pr_world p)) < 0
       then \<exists>q. res = Some (Inr (False, pinfo, q))
       else if pinfo \<noteq> None \<and> period \<le> 0 \<and> \<not> nd then res = Some (Inl Assertion_Failed)
       else \<exists>q. pr_world q = w \<and> res = Some (Inr (True,
         map_option (\<lambda>_. \<lparr>next_period = os_clock S w, period_ns = period\<rparr>) pinfo, q))"
proof -
  let ?t = "thread_process S stack_size prio sched p"
  have t: "touch_loop stack_size (os_pagesize S) 0 = Some (page_starts stack_size (os_pagesize S) 0)"
    using touch_loop_from[of "os_pagesize S" stack_size 0] assms by simp
  obtain q where q: "prove_thread_stack_use_is_safe S stack_size ?t = Some (Inr (True, q))"
    "pr_world q = touched_stack S stack_size ?t"
    using prove_thread_stack_use_is_safe_eq[OF t assms(2)] by blast
  have f: "fst (setprio S prio sched p) \<longleftrightarrow> \<not> fst (os_setscheduler S prio sched (pr_world p)) < 0"
    by (simp add: setprio_def split: prod.splits)
  have "rt_init_thread nd S stack_size prio sched pinfo period p =
      (if \<not> fst (setprio S prio sched p)
       then Some (Inr (False, pinfo, say (Stdout ''Error in setprio.'') (snd (setprio S prio sched p))))
       else and_then (prove_thread_stack_use_is_safe S stack_size ?t) (\<lambda>(b', p4).
          case pinfo of
            None \<Rightarrow> Some (Inr (True, None, p4))
          | Some _ \<Rightarrow> Some (bind_res (assert_res nd (0 < period)) (\<lambda>_.
              Inr (True, Some (timer_periodic_init (os_clock S (pr_world p4)) period), p4)))))"
    by (simp add: rt_init_thread_def thread_process_def show_new_pagefault_count_eq Let_def split_beta)
  then show ?thesis using q f
    by (cases pinfo) (auto simp: timer_periodic_init_def assert_res_def guard_res_def Let_def)
qed

lemma rt_init_thread_outcome_witness:
  "(\<exists>q. rt_init_thread False demo_os 10000 80 1 (Some \<lparr>next_period = \<lparr>tv_sec = 0, tv_nsec = 0\<rparr>, period_ns = 0\<rparr>)
       1000000 (demo_process True) =
     Some (Inr (True, Some \<lparr>next_period = \<lparr>tv_sec = 7, tv_nsec = 8\<rparr>, period_ns = 1000000\<rparr>, q))) \<and>
   (\<exists>q. rt_init_thread False demo_os 10000 99 1 None 0 (demo_process True) = Some (Inr (False, None, q)))"
proof -
  have "0 < os_pagesize demo_os" "(0 :: int) < 10000" "10000 + os_pagesize demo_os \<le> 2 ^ 64"
    by (simp_all add: demo_os_def)
  note r = rt_init_thread_outcome[OF this, of False _ 1 _ _ "demo_process True"]
  have s: "fst (os_setscheduler demo_os pr 1 w) = (if pr = 99 then -1 else 0)"
    "os_clock demo_os v = \<lparr>tv_sec = 7, tv_nsec = 8\<rparr>" for pr w v
    by (simp_all add: demo_os_def)
  show ?thesis
    using r[of 80 "Some \<lparr>next_period = \<lparr>tv_sec = 0, tv_nsec = 0\<rparr>, period_ns = 0\<rparr>" 1000000] r[of 99 None 0]
    by (auto simp: Let_def s)
qed

text \<open>The worlds the calls to the Alchemy skin go through.\<close>

definition inquired :: "('w, 't) alchemy \<Rightarrow> 'w \<Rightarrow> int \<times> 'w" where
  "inquired A w = (case al_self A w of (curtask, w1) \<Rightarrow> al_inquire A curtask w1)"

definition prioritised :: "('w, 't) alchemy \<Rightarrow> int \<Rightarrow> 'w \<Rightarrow> int \<times> 'w" where
  "prioritised A prio w = al_set_priority A None prio (snd (inquired A w))"

definition made_periodic :: "('w, 't) alchemy \<Rightarrow> int \<Rightarrow> int \<Rightarrow> 'w \<Rightarrow> int \<times> 'w" where
  "made_periodic A prio period w = al_set_periodic A None (al_now A) period (snd (prioritised A prio w))"

text \<open>Under Cobalt rt_init_thread returns false exactly when the task cannot be inquired or its
  priority cannot be set, and prints one line for the two error numbers it knows and nothing
  for any other; else it makes the task periodic and, whether that worked or not, returns
  true with the deadline at the clock read after it.\<close>

theorem rt_init_thread_cobalt_outcome:
  "rt_init_thread_cobalt nd A stack_size prio sched pinfo period p =
     (let r = fst (inquired A (pr_world p)); r' = fst (prioritised A prio (pr_world p));
          failed = (\<lambda>e w. Inr (False, pinfo, p\<lparr>pr_world := w,
            pr_out := pr_out p @ (case task_error_text e of Some l \<Rightarrow> [Stdout l] | None \<Rightarrow> [])\<rparr>));
          w = snd (made_periodic A prio period (pr_world p))
      in if r \<noteq> 0 then failed r (snd (inquired A (pr_world p)))
         else if r' \<noteq> 0 then failed r' (snd (prioritised A prio (pr_world p)))
         else if pinfo \<noteq> None \<and> period \<le> 0 \<and> \<not> nd then Inl Assertion_Failed
         else Inr (True, map_option (\<lambda>_. \<lparr>next_period = al_clock A w, period_ns = period\<rparr>) pinfo,
                   p\<lparr>pr_world := w\<rparr>))"
  by (cases pinfo)
    (auto simp: rt_init_thread_cobalt_def inquired_def prioritised_def made_periodic_def say_task_error_def
      say_def timer_periodic_init_def assert_res_def guard_res_def Let_def split: prod.splits option.splits)

subsection \<open>The interfaces found\<close>

text \<open>An entry whose address \<open>getnameinfo\<close> cannot translate.\<close>

definition bad_iface :: "(ifaddr \<Rightarrow> int \<times> string \<times> string) \<Rightarrow> ifaddr \<Rightarrow> bool" where
  "bad_iface gni x \<longleftrightarrow>
     (ifa_family x = Some AF_INET \<or> ifa_family x = Some AF_INET6) \<and> fst (gni x) \<noteq> 0"

lemma iface_loop_result:
  "snd (iface_loop gni xs out ret) =
     (if \<exists>x\<in>set xs. bad_iface gni x then Inl (Exit_Call 1)
      else Inr (ret @ map ifa_name (filter (\<lambda>x. ifa_family x \<noteq> None) xs)))"
  by (induction gni xs out ret rule: iface_loop.induct)
    (auto simp: bad_iface_def Let_def split: option.splits prod.splits)

text \<open>C39: get_ifaces returns the names of the entries that have an address, in order, an empty
  list when getifaddrs fails, and exits the process when the address of an internet entry
  cannot be translated.\<close>

theorem get_ifaces_names:
  "snd (get_ifaces gni ifs) =
     (case ifs of None \<Rightarrow> Inr []
      | Some xs \<Rightarrow> if \<exists>x\<in>set xs. bad_iface gni x then Inl (Exit_Call 1)
                  else Inr (map ifa_name (filter (\<lambda>x. ifa_family x \<noteq> None) xs)))"
  by (simp add: get_ifaces_def iface_loop_result split: option.splits)

lemma get_ifaces_names_witness:
  "snd (get_ifaces (\<lambda>x. (0, ''::1'', [])) (Some
     [\<lparr>ifa_name = ''lo'', ifa_family = Some 10, ifa_stats = None\<rparr>,
      \<lparr>ifa_name = ''tun0'', ifa_family = None, ifa_stats = None\<rparr>,
      \<lparr>ifa_name = ''eth0'', ifa_family = Some 17, ifa_stats = Some (1, 2, 3, 4)\<rparr>])) = Inr [''lo'', ''eth0'']"
  by (simp add: get_ifaces_names bad_iface_def)

end
