(* ===== verification/Vector_Mt.thy ===== *)
theory Vector_Mt
  imports Prelude "HOL-Library.Sublist"
begin

text \<open>
  \<open>vector\<close> of \<open>vector_mt.h\<close>, a \<open>std::vector\<close> behind a mutex: a list with its constructors,
  \<open>push_back\<close> and \<open>erase\<close>. An iterator is an index; it is used before any call that
  invalidates it. The constructors that copy or move a \<open>vector\<close> are not modelled: they
  initialise a \<open>std::vector\<close> with a \<open>realtime_utilities::vector\<close>, which does not compile once
  they are used.
\<close>

subsection \<open>The methods\<close>

text \<open>\<open>dflt\<close> is the value-initialised element.\<close>

datatype 'a vec_init = Alloc | Sized nat | Filled nat 'a | Range "'a list" | Init_List "'a list"

fun vector_new :: "'a \<Rightarrow> 'a vec_init \<Rightarrow> 'a list" where
  "vector_new dflt Alloc = []"
| "vector_new dflt (Sized n) = replicate n dflt"
| "vector_new dflt (Filled n x) = replicate n x"
| "vector_new dflt (Range xs) = xs"
| "vector_new dflt (Init_List xs) = xs"

definition vec_begin :: "'a list \<Rightarrow> nat" where "vec_begin v = 0"
definition vec_end :: "'a list \<Rightarrow> nat" where "vec_end v = length v"
definition vec_get :: "'a list \<Rightarrow> 'a list" where "vec_get v = v"

definition vec_push_back :: "'a \<Rightarrow> 'a list \<Rightarrow> 'a list" where "vec_push_back x v = v @ [x]"

text \<open>Erasing \<open>end()\<close> or an iterator past it is undefined behaviour.\<close>

definition vec_erase :: "nat \<Rightarrow> 'a list \<Rightarrow> 'a list res" where
  "vec_erase i v = (if i < length v then Inr (take i v @ drop (Suc i) v) else Inl Out_Of_Bounds)"

datatype 'a vec_call = Vec_Push 'a | Vec_Erase nat

fun vec_calls :: "'a vec_call list \<Rightarrow> 'a list \<Rightarrow> 'a list res" where
  "vec_calls [] v = Inr v"
| "vec_calls (Vec_Push x # cs) v = vec_calls cs (vec_push_back x v)"
| "vec_calls (Vec_Erase i # cs) v = bind_res (vec_erase i v) (vec_calls cs)"

subsection \<open>Properties\<close>

lemma vec_erase_length: "vec_erase i v = Inr v' \<Longrightarrow> length v = Suc (length v')"
  by (auto simp: vec_erase_def split: if_splits)

lemma vec_erase_nth:
  "vec_erase i v = Inr v' \<Longrightarrow> j < length v' \<Longrightarrow> v' ! j = (if j < i then v ! j else v ! Suc j)"
  by (auto simp: vec_erase_def nth_append split: if_splits)

text \<open>The elements pushed by a list of calls, and the number of erasures.\<close>

fun vec_pushed :: "'a vec_call list \<Rightarrow> 'a list" where
  "vec_pushed [] = []"
| "vec_pushed (Vec_Push x # cs) = x # vec_pushed cs"
| "vec_pushed (Vec_Erase i # cs) = vec_pushed cs"

fun vec_erased :: "'a vec_call list \<Rightarrow> nat" where
  "vec_erased [] = 0"
| "vec_erased (Vec_Push x # cs) = vec_erased cs"
| "vec_erased (Vec_Erase i # cs) = Suc (vec_erased cs)"

lemma subseq_erase: "i < length v \<Longrightarrow> subseq (take i v @ drop (Suc i) v) v"
proof -
  assume "i < length v"
  then have "v = take i v @ [v ! i] @ drop (Suc i) v" by (simp add: id_take_nth_drop[symmetric])
  moreover have "subseq (take i v @ drop (Suc i) v) (take i v @ [v ! i] @ drop (Suc i) v)"
    by (intro list_emb_append_mono) auto
  ultimately show ?thesis by simp
qed

text \<open>Push_back and erase calls keep the order: the elements left are a subsequence of those there
  at first followed by those pushed, and the number is right.\<close>

theorem vector_order:
  assumes "vec_calls cs v = Inr v'"
  shows "subseq v' (v @ vec_pushed cs) \<and> length v' + vec_erased cs = length v + length (vec_pushed cs)"
  using assms
proof (induction cs arbitrary: v)
  case (Cons c cs)
  show ?case
  proof (cases c)
    case (Vec_Push x)
    then show ?thesis using Cons.IH[of "vec_push_back x v"] Cons.prems by (simp add: vec_push_back_def)
  next
    case (Vec_Erase i)
    then obtain v1 where v1: "vec_erase i v = Inr v1" "vec_calls cs v1 = Inr v'"
      using Cons.prems by (auto simp: res_simps)
    have "subseq v1 v" using v1(1) subseq_erase[of i v] by (auto simp: vec_erase_def split: if_splits)
    then have "subseq (v1 @ vec_pushed cs) (v @ vec_pushed cs)" by simp
    with Cons.IH[OF v1(2)] have "subseq v' (v @ vec_pushed cs)" using subseq_order.trans by blast
    then show ?thesis using Cons.IH[OF v1(2)] vec_erase_length[OF v1(1)] Vec_Erase by simp
  qed
qed simp

lemma vector_order_witness:
  "subseq [1, 3 :: nat] ([1] @ vec_pushed [Vec_Push 2, Vec_Push 3, Vec_Erase 1])"
proof -
  have "vec_calls [Vec_Push 2, Vec_Push 3, Vec_Erase 1] [1] = Inr [1, 3 :: nat]"
    by (simp add: vec_push_back_def vec_erase_def)
  from vector_order[OF this] show ?thesis by blast
qed

end
