(* ===== verification/Spec2Isabelle.thy ===== *)
theory Spec2Isabelle
  imports Timer_Arith Timer_Loop IPC_Threads IPC_Stream IPC_Errors Stamped_Buffer Diagnostics_Calls
    Task_Test Mutex_Race Realtime_Init Vector_Mt
begin

text \<open>
  A verification library for \<open>realtime_utilities\<close>, a C++ library of helpers for real-time
  processes: periodic deadlines, a shared-memory channel with a watchdog, thread-safe
  containers, a thread pool, cycle statistics and diagnostics, and process initialisation.
  Source names below are relative to \<open>src/\<close>; headers without a directory are those of
  \<open>include/realtime_utilities/\<close>, sources those of \<open>src/realtime_utilities/\<close>.

  The parts and how they interact. The channel \<open>RealTimeIPC\<close> takes its time stamps from
  \<open>timer_to_s\<close>. A \<open>TimeSpanTracker\<close> keeps its time spans in a \<open>circ_buffer\<close> and reads them with
  \<open>mean\<close>, \<open>max\<close> and \<open>min\<close>; a \<open>DiagnosticsInterface\<close> owns a table of trackers, prints them in its
  performance report, and keeps a queue of messages. \<open>rt_init_thread\<close> starts the deadlines
  that \<open>timer_inc_period\<close> moves. The thread pool, the process-shared mutex and the locked
  vector stand alone.

  Theories, in the order of the dependencies:

  \<^item> \<open>Prelude\<close>: faults (undefined behaviour, failed assertions, exceptions, exit) as a datatype,
    results \<open>fault + 'a\<close>, checked 64-bit arithmetic, truncating division, decimal numbers.
  \<^item> \<open>Runs\<close>: runs of a labelled step relation, with the locales \<open>kept\<close> (an invariant) and
    \<open>wasteful\<close> (a measure that some steps may raise by one), interpreted on the steps of the
    buffer's monitor, of the pool, of its test program, of the critical sections of
    \<open>RealTimeIPC\<close> and of the processes that initialise a mutex.
  \<^item> \<open>Binary64\<close>: IEEE double precision on 64-bit words, with the rounding of sums, products,
    quotients, conversions and comparisons, and the lemmas on exactness and error.
  \<^item> \<open>Timer\<close>, \<open>Timer_Arith\<close>: every \<open>timer_\<close> function of \<open>realtime_utilities.cpp\<close> on
    \<open>timespec\<close> and \<open>period_info\<close>. The lemmas show that the deadline loop ends at the first
    deadline not seen as late, or in an overflow of its \<open>int\<close> counter when that is \<open>2 ^ 31\<close>
    periods away, where the comparison in doubles is exact and where it is not, and what the additions, differences and the synchronisation offset compute. \<open>Timer_Loop\<close>
    runs a periodic thread: its deadlines stay on the grid of the first one.
  \<^item> \<open>Interprocess\<close>, \<open>RealTime_IPC\<close>: Boost.Interprocess as a record of operations with the
    locale \<open>interprocess\<close> (and an instance in memory), and every method of \<open>RealTimeIPC\<close>
    (\<open>realtime_ipc.h\<close>, \<open>internal/realtime_ipc_impl.h\<close>) on an object record and that world.
    \<open>IPC_Channel\<close> refines an abstract channel; \<open>IPC_Flush\<close> treats \<open>flush\<close> and its watchdog;
    \<open>IPC_Life\<close> construction, destruction and a round trip; \<open>IPC_Errors\<close> the error texts.
    \<open>IPC_Threads\<close> splits the writing methods at the gap between their two critical sections
    and interleaves the sections of any number of threads (\<open>section_step\<close>): no packet is torn,
    writers that do not overlap refine the abstract channel, writers that do lose updates.
    The two halves of the methods, \<open>op_load\<close> and \<open>op_store\<close>, are proved to compose to the
    methods of \<open>RealTime_IPC\<close> (\<open>ipc_call_sections\<close>).
    \<open>IPC_Stream\<close> composes \<open>update\<close>, \<open>flush\<close> and the clock: a writer in pace raises no alarm.
  \<^item> \<open>Circular_Buffer\<close>: \<open>circ_buffer\<close> of \<open>circular_buffer.h\<close> over the ring as the locale \<open>ring\<close>,
    and its condition variable as the step relation \<open>mon_step\<close>. The lemmas show the window it
    keeps, that readers get only what was pushed, and when a wake-up can be lost.
    \<open>Stamped_Buffer\<close>: the stamped buffers of \<open>circular_buffer_stamped.h\<close>.
  \<^item> \<open>Statistics\<close>: \<open>mean\<close>, \<open>max\<close>, \<open>min\<close> and \<open>combine\<close> of \<open>circular_buffer.h\<close>.
  \<^item> \<open>Time_Span_Tracker\<close>: \<open>time_span_tracker.h\<close>; the mode, the counters, the window, and the
    first span.
  \<^item> \<open>Diagnostics\<close>, \<open>Diagnostics_Calls\<close>: \<open>diagnostics_interface.h\<close> and \<open>.cpp\<close> over the status
    wrapper as the locale \<open>status_wrapper\<close>; the reports, the text of numbers, and the object
    over any sequence of calls, the trackers it hands out and calls that throw included: the
    null entry that a failed \<open>addTimeTracker\<close> leaves, and what it does to the reports.
  \<^item> \<open>Task_Pool\<close>: \<open>parallel_computing.h\<close> as the step relation \<open>pool_step\<close>; order, progress and
    the end after \<open>finish\<close>, with the measure \<open>pool_cost\<close> that bounds the steps left, up to one
    more for each spurious wake-up. \<open>Task_Test\<close>: the main thread of \<open>test/tasks.cpp\<close> and the pool
    as one step relation (\<open>test_step\<close>), from the first \<open>queue\<close> to the end of the destructor.
  \<^item> \<open>Shared_Mutex\<close>: \<open>shared_mutex.h\<close> and \<open>.cpp\<close> over the system calls as the record \<open>posix\<close>
    and the locale \<open>posix_files\<close> for descriptors, which says nothing of \<open>errno\<close> after a call
    that succeeded. \<open>Mutex_Race\<close>: its system calls in several
    processes at once as the step relation \<open>init_step\<close>; the races, and the advice that avoids
    them.
  \<^item> \<open>Realtime_Init\<close>: the rest of \<open>realtime_utilities.cpp\<close> and \<open>rt_init_thread\<close> of
    \<open>realtime_utilities.h\<close> over the operating system as the record \<open>os\<close>, with what is printed;
    its Cobalt branch over the Alchemy skin as the record \<open>alchemy\<close>.
  \<^item> \<open>Vector_Mt\<close>: \<open>vector_mt.h\<close>.

  Loops that may not end are \<open>partial_function (option)\<close>, where \<open>None\<close> is a run that does not
  end (\<open>inc_loop\<close>, \<open>touch_loop\<close>); no fuel is used. Step relations are reachability over lists
  of events; a theorem on every run says so, and runs that end are bounded by a measure.

  Numbers: \<open>long\<close>, \<open>time_t\<close>, \<open>int64_t\<close> and \<open>size_t\<close> are 64 bits wide, \<open>int\<close> 32; signed overflow
  is a fault, unsigned sums wrap. The watchdog and the deadline loop compare seconds in
  doubles, so the theorems on them hold within the uptimes they name (97 days, \<open>2 ^ 23\<close> s, where
  two nanoseconds decide). Doubles round to nearest, ties to even. The build sets
  \<open>-Ofast\<close>, which permits a compiler to assume there is no NaN and to reassociate; the model
  is the language's own meaning of the code, without those liberties.

  Locking: a method that holds a mutex from start to end is one atomic call. Where a method
  takes the mutex more than once, waits, or works outside it, the model is a step relation or
  says so in its theory.

  Not modelled. The member \<open>push_back\<close> of \<open>circ_buffer_stamped_checked\<close> and the copy and
  move constructors of \<open>vector\<close> are ill-formed once they are instantiated, so they have no
  behaviour. Messages on the console are left out in \<open>RealTimeIPC\<close>, \<open>Shared_Mutex\<close> and
  \<open>Task_Test\<close>, where nothing depends on them. Boost, the Alchemy skin, the diagnostics packages of ROS
  and the system calls are parameters, with their documented behaviour, where a result needs
  it, as the laws of a locale. The template \<open>to_string_fix\<close> and the statistics
  are translated for \<open>double\<close>, the only type the repository uses them with. The sources that
  call nothing (includes, declarations, type names) have no model.
\<close>

end
